theory Spec2Isabelle
  imports Complex_Main "HOL-Library.List_Lexorder" "HOL-Library.Char_ord"
begin

section \<open>Market basket analysis dashboard\<close>

text \<open>
  The two dashboard scripts (\<^verbatim>\<open>dashboard3.py\<close> and \<^verbatim>\<open>dashboardd.py\<close>) share the same
  pipeline: the uploaded table of (order_id, product) rows is turned into a 0/1 basket
  table, the frequent itemsets and the association rules are computed, the rules are
  filtered by lift, and the surviving rules are folded into a directed graph by
  \<^verbatim>\<open>draw_network\<close>. \<^verbatim>\<open>dashboardd.py\<close> also exports the displayed rule table.

  Metric values are the finite values of the rule table's float columns. Every finite
  float is a rational number, and the scripts only compare and copy these values, so they
  are modelled as \<^typ>\<open>rat\<close>; a NaN, which no comparison holds for, is not a value of
  the model.
\<close>

subsection \<open>The rule table\<close>

text \<open>
  One row of the rule table: the two itemset columns and the three metric columns the
  scripts read. In the rule table \<^verbatim>\<open>rules\<close> an itemset is a Python frozenset, here the
  list of items that \<^verbatim>\<open>list(row['antecedents'])\<close> gives (type \<open>'i list rule\<close>); in the
  copy \<^verbatim>\<open>display_rules\<close> it is one string (type \<open>string rule\<close>).
\<close>

record 's rule =
  antecedents :: 's
  consequents :: 's
  support :: rat
  confidence :: rat
  lift :: rat

text \<open>The choices of the select box \<^verbatim>\<open>["confidence", "lift", "support"]\<close>.\<close>

datatype metric = Confidence | Lift | Support

text \<open>\<^verbatim>\<open>row[selected_metric]\<close>\<close>

fun metric_value :: "metric \<Rightarrow> 's rule \<Rightarrow> rat" where
  "metric_value Confidence r = confidence r"
| "metric_value Lift r = lift r"
| "metric_value Support r = support r"

subsection \<open>Formatting a value with two decimals\<close>

text \<open>
  Python's \<^verbatim>\<open>f"{x:.2f}"\<close> prints the decimal with two fractional digits that is nearest
  to the exact value of \<^verbatim>\<open>x\<close>, a tie going to the even last digit, with a minus sign
  for a negative value.
\<close>

definition digit_char :: "int \<Rightarrow> char" where
  "digit_char d = char_of (48 + d)"

text \<open>The decimal digits of a non-negative integer.\<close>

function show_digits :: "int \<Rightarrow> string" where
  "show_digits n =
     (if n < 10 then [digit_char n] else show_digits (n div 10) @ [digit_char (n mod 10)])"
  by pat_completeness auto
termination
  by (relation "measure nat") auto

declare show_digits.simps [simp del]

definition round_half_even :: "rat \<Rightarrow> int" where
  "round_half_even x =
     (let n = \<lfloor>x\<rfloor>; f = x - of_int n
      in if f > 1 / 2 \<or> (f = 1 / 2 \<and> odd n) then n + 1 else n)"

definition format_2f :: "rat \<Rightarrow> string" where
  "format_2f x =
     (let h = round_half_even (\<bar>x\<bar> * 100)
      in (if x < 0 then ''-'' else []) @ show_digits (h div 100) @ ''.'' @
         [digit_char (h mod 100 div 10), digit_char (h mod 10)])"

subsection \<open>The directed graph\<close>

text \<open>
  The attributes every call of \<^verbatim>\<open>add_edge\<close> in the scripts passes: \<^verbatim>\<open>weight\<close> and
  \<^verbatim>\<open>title\<close>.
\<close>

record edge_attr =
  weight :: rat
  title :: string

text \<open>
  \<^verbatim>\<open>nx.DiGraph()\<close>: a dictionary of nodes and a dictionary of edges keyed by the ordered
  pair (source, target). Both are kept as lists in the order of first insertion, a key
  occurring once.
\<close>

record 'i digraph =
  nodes :: "'i list"
  edges :: "(('i \<times> 'i) \<times> edge_attr) list"

definition empty_graph :: "'i digraph" where
  "empty_graph = \<lparr>nodes = [], edges = []\<rparr>"

definition add_node :: "'i \<Rightarrow> 'i list \<Rightarrow> 'i list" where
  "add_node n ns = (if n \<in> set ns then ns else ns @ [n])"

text \<open>Storing under a dictionary key: an existing key keeps its place and gets the new value.\<close>

fun dict_set :: "'k \<Rightarrow> 'v \<Rightarrow> ('k \<times> 'v) list \<Rightarrow> ('k \<times> 'v) list" where
  "dict_set k v [] = [(k, v)]"
| "dict_set k v (p # ps) = (if fst p = k then (k, v) # ps else p # dict_set k v ps)"

text \<open>
  Modelled from the spec: \<^verbatim>\<open>DiGraph.add_edge\<close> of the graph library, which is not part of
  the repository. The spec's design notes say that it silently overwrites on repeated edge
  insertion, keeping the last inserted value; both end points become nodes. Since each
  call passes both attributes, the stored attributes are those of the call.
\<close>

definition add_edge :: "'i \<Rightarrow> 'i \<Rightarrow> edge_attr \<Rightarrow> 'i digraph \<Rightarrow> 'i digraph" where
  "add_edge u v a G =
     \<lparr>nodes = add_node v (add_node u (nodes G)), edges = dict_set (u, v) a (edges G)\<rparr>"

subsection \<open>\<^verbatim>\<open>draw_network\<close>\<close>

text \<open>\<^verbatim>\<open>filtered_rules = rules[rules[selected_metric] >= min_val]\<close>\<close>

definition filtered_rules :: "'s rule list \<Rightarrow> metric \<Rightarrow> rat \<Rightarrow> 's rule list" where
  "filtered_rules rules selected_metric min_val =
     filter (\<lambda>r. metric_value selected_metric r \<ge> min_val) rules"

text \<open>
  The attributes of the edges of one row:
  \<^verbatim>\<open>weight=row[selected_metric], title=f"Lift: {row['lift']:.2f}"\<close>.
\<close>

definition row_attr :: "metric \<Rightarrow> 's rule \<Rightarrow> edge_attr" where
  "row_attr selected_metric row =
     \<lparr>weight = metric_value selected_metric row, title = ''Lift: '' @ format_2f (lift row)\<rparr>"

text \<open>The body of the loop over the rows: the two nested loops over the items.\<close>

definition add_row_edges :: "metric \<Rightarrow> 'i list rule \<Rightarrow> 'i digraph \<Rightarrow> 'i digraph" where
  "add_row_edges selected_metric row G =
     fold (\<lambda>ant G. fold (\<lambda>cons G. add_edge ant cons (row_attr selected_metric row) G)
                      (consequents row) G)
          (antecedents row) G"

text \<open>
  \<^verbatim>\<open>draw_network\<close> up to the graph \<^verbatim>\<open>G\<close> that it hands to the renderer; the rendering
  itself (the HTML page) is output only.
\<close>

definition draw_network :: "'i list rule list \<Rightarrow> metric \<Rightarrow> rat \<Rightarrow> 'i digraph" where
  "draw_network rules selected_metric min_val =
     fold (add_row_edges selected_metric) (filtered_rules rules selected_metric min_val)
       empty_graph"

subsection \<open>The basket table\<close>

text \<open>
  The uploaded table \<^verbatim>\<open>df\<close>: its rows, each with an \<^verbatim>\<open>order_id\<close> and a \<^verbatim>\<open>product\<close>.
  A data frame with an index column: the column labels, and per row the index label with
  the row's cells.
\<close>

record ('o, 'p) frame =
  columns :: "'p list"
  rows :: "('o \<times> int list) list"

text \<open>
  \<^verbatim>\<open>df.groupby(['order_id', 'product'])['product'].count()\<close>: the number of rows of each
  group that occurs.
\<close>

definition group_count :: "('o \<times> 'p) list \<Rightarrow> 'o \<times> 'p \<Rightarrow> int option" where
  "group_count df k =
     (if k \<in> set df then Some (int (length (filter (\<lambda>r. r = k) df))) else None)"

text \<open>\<^verbatim>\<open>.fillna(0)\<close> on a cell that \<^verbatim>\<open>unstack\<close> left empty.\<close>

definition fillna0 :: "int option \<Rightarrow> int" where
  "fillna0 c = (case c of None \<Rightarrow> 0 | Some n \<Rightarrow> n)"

text \<open>
  \<^verbatim>\<open>basket = (... .count().unstack().reset_index().fillna(0).set_index('order_id'))\<close>:
  one row per order and one column per product, both in sorted order, the cell of a group
  that does not occur filled with 0.
\<close>

definition basket :: "('o::linorder \<times> 'p::linorder) list \<Rightarrow> ('o, 'p) frame" where
  "basket df =
     (let cols = sorted_list_of_set (snd ` set df)
      in \<lparr>columns = cols,
          rows = map (\<lambda>ord. (ord, map (\<lambda>p. fillna0 (group_count df (ord, p))) cols))
                   (sorted_list_of_set (fst ` set df))\<rparr>)"

text \<open>\<^verbatim>\<open>basket_sets = (basket > 0).astype(int)\<close>\<close>

definition basket_sets :: "('o::linorder \<times> 'p::linorder) list \<Rightarrow> ('o, 'p) frame" where
  "basket_sets df =
     (let b = basket df
      in \<lparr>columns = columns b,
          rows = map (\<lambda>(ord, cells). (ord, map (\<lambda>c. if c > 0 then 1 else 0) cells)) (rows b)\<rparr>)"

subsection \<open>Errors\<close>

datatype error =
  EmptyDatasetError | ConfigurationError | MalformedInputError | InvariantViolationError

subsection \<open>Frequent itemsets\<close>

text \<open>
  The library call \<^verbatim>\<open>apriori(basket_sets, min_support=min_support, use_colnames=True)\<close>
  is not code of the repository. The definitions of this subsection are modelled from the
  spec: what the transaction store exposes (total count and containment count), and the
  level-wise search with its join and prune steps. An itemset is kept as the sorted list
  of its items, without duplicates.
\<close>

text \<open>Modelled from the spec: the total transaction count \<open>N\<close> of the store.\<close>

definition transaction_count :: "('o, 'p) frame \<Rightarrow> nat" where
  "transaction_count store = length (rows store)"

text \<open>Modelled from the spec: the presence bit of an item in one transaction (a row).\<close>

definition present :: "'p list \<Rightarrow> 'o \<times> int list \<Rightarrow> 'p \<Rightarrow> bool" where
  "present cols row i = (map_of (zip cols (snd row)) i = Some 1)"

text \<open>
  Modelled from the spec: for an itemset, the count of transactions whose item set is a
  superset of it.
\<close>

definition containing_count :: "('o, 'p) frame \<Rightarrow> 'p list \<Rightarrow> nat" where
  "containing_count store I =
     length (filter (\<lambda>row. list_all (present (columns store) row) I) (rows store))"

text \<open>
  Modelled from the spec: support = (count of transactions containing the itemset) / N.
  With no transaction at all the count is 0, and so is the support.
\<close>

definition support_of :: "('o, 'p) frame \<Rightarrow> 'p list \<Rightarrow> rat" where
  "support_of store I =
     (if transaction_count store = 0 then 0
      else of_nat (containing_count store I) / of_nat (transaction_count store))"

text \<open>Modelled from the spec: every distinct item of the store.\<close>

definition store_items :: "('o, 'p::linorder) frame \<Rightarrow> 'p list" where
  "store_items store = sorted_list_of_set (set (columns store))"

text \<open>
  Modelled from the spec: level 1 of the search, the items whose support is at least
  \<open>min_support\<close>.
\<close>

definition level_one :: "('o, 'p::linorder) frame \<Rightarrow> rat \<Rightarrow> 'p list list" where
  "level_one store min_support =
     filter (\<lambda>I. support_of store I \<ge> min_support) (map (\<lambda>i. [i]) (store_items store))"

text \<open>
  Modelled from the spec: the join step of level \<open>k\<close>, the unions of two frequent
  (k-1)-itemsets that share exactly k-2 items.
\<close>

definition join_step :: "nat \<Rightarrow> 'p::linorder list list \<Rightarrow> 'p list list" where
  "join_step k L =
     remdups (concat (map (\<lambda>a. map (\<lambda>b. sorted_list_of_set (set a \<union> set b))
                                  (filter (\<lambda>b. length (filter (\<lambda>x. x \<in> set b) a) = k - 2) L)) L))"

text \<open>
  Modelled from the spec: the prune step, which discards a candidate containing a
  (k-1)-subset that is not a frequent (k-1)-itemset.
\<close>

definition prune_step :: "'p list list \<Rightarrow> 'p list list \<Rightarrow> 'p list list" where
  "prune_step L cands =
     filter (\<lambda>c. list_all (\<lambda>x. remove1 x c \<in> set L) c) cands"

text \<open>Modelled from the spec: level \<open>k\<close> from the frequent (k-1)-itemsets \<open>L\<close>.\<close>

definition next_level ::
  "('o, 'p::linorder) frame \<Rightarrow> rat \<Rightarrow> nat \<Rightarrow> 'p list list \<Rightarrow> 'p list list" where
  "next_level store min_support k L =
     filter (\<lambda>I. support_of store I \<ge> min_support) (prune_step L (join_step k L))"

text \<open>
  Modelled from the spec: the levels are repeated until one is empty or \<open>k\<close> exceeds the
  number of distinct items; the result is the union of the levels.
\<close>

function apriori_levels ::
  "('o, 'p::linorder) frame \<Rightarrow> rat \<Rightarrow> nat \<Rightarrow> 'p list list \<Rightarrow> 'p list list" where
  "apriori_levels store min_support k L =
     (if L = [] \<or> k > length (store_items store) then []
      else L @ apriori_levels store min_support (Suc k)
                 (next_level store min_support (Suc k) L))"
  by pat_completeness auto
termination
  by (relation "measure (\<lambda>(store, min_support, k, L). Suc (length (store_items store)) - k)")
    auto

declare apriori_levels.simps [simp del]

text \<open>
  Modelled from the spec: the mining run. A \<open>min_support\<close> outside (0, 1] is a
  configuration error; the result is the table of the frequent itemsets with their
  supports.
\<close>

definition apriori ::
  "('o, 'p::linorder) frame \<Rightarrow> rat \<Rightarrow> error + ('p list \<times> rat) list" where
  "apriori store min_support =
     (if min_support \<le> 0 \<or> min_support > 1 then Inl ConfigurationError
      else Inr (map (\<lambda>I. (I, support_of store I))
                 (apriori_levels store min_support 1 (level_one store min_support))))"

subsection \<open>Association rules\<close>

text \<open>
  The library call
  \<^verbatim>\<open>association_rules(frequent_itemsets, metric="confidence", min_threshold=min_confidence)\<close>
  is not code of the repository either; the definitions of this subsection are modelled
  from the spec.
\<close>

text \<open>
  Modelled from the spec: the support of an itemset as known from mining. The support of
  an antecedent is positive by construction; a zero value (or an itemset that mining did
  not produce) is an invariant violation. The same lookup serves the consequent, whose
  support divides the confidence.
\<close>

definition known_support :: "('p list \<times> rat) list \<Rightarrow> 'p list \<Rightarrow> error + rat" where
  "known_support frequent_itemsets I =
     (case map_of frequent_itemsets I of
        None \<Rightarrow> Inl InvariantViolationError
      | Some s \<Rightarrow> if s \<le> 0 then Inl InvariantViolationError else Inr s)"

text \<open>
  Modelled from the spec: the candidate rule of a frequent itemset \<open>I\<close> with support \<open>s\<close>
  and an antecedent \<open>A\<close>; the consequent is the rest of \<open>I\<close>.
\<close>

definition candidate_rule ::
  "('p list \<times> rat) list \<Rightarrow> 'p list \<Rightarrow> rat \<Rightarrow> 'p list \<Rightarrow> error + 'p list rule" where
  "candidate_rule frequent_itemsets I s A =
     (let C = filter (\<lambda>x. x \<notin> set A) I
      in case known_support frequent_itemsets A of
           Inl e \<Rightarrow> Inl e
         | Inr sA \<Rightarrow>
             (case known_support frequent_itemsets C of
                Inl e \<Rightarrow> Inl e
              | Inr sC \<Rightarrow>
                  Inr \<lparr>antecedents = A, consequents = C, support = s,
                       confidence = s / sA, lift = s / sA / sC\<rparr>))"

text \<open>
  Modelled from the spec: the bipartitions of an itemset into a non-empty antecedent and
  a non-empty consequent, given by their antecedents.
\<close>

definition bipartitions :: "'p list \<Rightarrow> 'p list list" where
  "bipartitions I = filter (\<lambda>A. A \<noteq> [] \<and> A \<noteq> I) (subseqs I)"

text \<open>The first error of a list of results, or all the values.\<close>

fun collect :: "(error + 'a) list \<Rightarrow> error + 'a list" where
  "collect [] = Inr []"
| "collect (Inl e # xs) = Inl e"
| "collect (Inr x # xs) = (case collect xs of Inl e \<Rightarrow> Inl e | Inr ys \<Rightarrow> Inr (x # ys))"

text \<open>Modelled from the spec: the candidate rules of every frequent itemset of size at least 2.\<close>

definition candidate_rules :: "('p list \<times> rat) list \<Rightarrow> error + 'p list rule list" where
  "candidate_rules frequent_itemsets =
     collect (concat (map (\<lambda>(I, s). map (candidate_rule frequent_itemsets I s) (bipartitions I))
                       (filter (\<lambda>(I, s). length I \<ge> 2) frequent_itemsets)))"

text \<open>
  Modelled from the spec: the generator emits a candidate only if its confidence is at
  least \<open>min_confidence\<close>.
\<close>

definition association_rules ::
  "('p list \<times> rat) list \<Rightarrow> rat \<Rightarrow> error + 'p list rule list" where
  "association_rules frequent_itemsets min_confidence =
     (case candidate_rules frequent_itemsets of
        Inl e \<Rightarrow> Inl e
      | Inr cands \<Rightarrow> Inr (filter (\<lambda>r. confidence r \<ge> min_confidence) cands))"

subsection \<open>The pipeline of the scripts\<close>

text \<open>
  The rule table of the scripts: the basket table, the frequent itemsets, the rules at
  the confidence threshold, and then \<^verbatim>\<open>rules = rules[rules['lift'] >= min_lift]\<close>. An
  error of a stage is the error of the pipeline. The generator here is the one of the
  spec, which takes every table; the check that the library makes first is part of the
  run of the script, \<open>dashboard\<close> below.
\<close>

definition mine_rules ::
  "('o::linorder \<times> 'p::linorder) list \<Rightarrow> rat \<Rightarrow> rat \<Rightarrow> rat \<Rightarrow> error + 'p list rule list" where
  "mine_rules df min_support min_confidence min_lift =
     (case apriori (basket_sets df) min_support of
        Inl e \<Rightarrow> Inl e
      | Inr frequent_itemsets \<Rightarrow>
          (case association_rules frequent_itemsets min_confidence of
             Inl e \<Rightarrow> Inl e
           | Inr rules \<Rightarrow> Inr (filter (\<lambda>r. lift r \<ge> min_lift) rules)))"

text \<open>Python's \<^verbatim>\<open>sep.join(xs)\<close>.\<close>

fun join :: "string \<Rightarrow> string list \<Rightarrow> string" where
  "join sep [] = []"
| "join sep [x] = x"
| "join sep (x # y # ys) = x @ sep @ join sep (y # ys)"

text \<open>
  \<^verbatim>\<open>display_rules\<close>: the copy of the rule table whose itemset columns are replaced by
  \<^verbatim>\<open>', '.join(list(a))\<close>.
\<close>

definition display_rules :: "string list rule list \<Rightarrow> string rule list" where
  "display_rules rules =
     map (\<lambda>r. \<lparr>antecedents = join '', '' (antecedents r),
                consequents = join '', '' (consequents r),
                support = support r, confidence = confidence r, lift = lift r\<rparr>) rules"


text \<open>
  \<^verbatim>\<open>min_val_default = float(rules[metric_choice].min())\<close>, which the scripts compute for a
  rule table that is not empty.
\<close>

definition min_val_default :: "'s rule list \<Rightarrow> metric \<Rightarrow> rat" where
  "min_val_default rules metric_choice = Min (set (map (metric_value metric_choice) rules))"

text \<open>\<^verbatim>\<open>max_val_default = float(rules[metric_choice].max())\<close>, likewise.\<close>

definition max_val_default :: "'s rule list \<Rightarrow> metric \<Rightarrow> rat" where
  "max_val_default rules metric_choice = Max (set (map (metric_value metric_choice) rules))"


text \<open>
  What a run of the script shows: the warning that no rules were found, or the rule
  table with the network graph. The order in which the table widget lists the rows is
  presentation and is not modelled.
\<close>

datatype page =
  NoRulesWarning
| RulesPage (shown_rules: "string rule list") (network: "string digraph")

text \<open>
  How a run of the script can end without a page: with an error of a stage, or with an
  exception that one of the two libraries raises on the arguments the script passes.
\<close>

datatype run_error = Core error | ValueError | StreamlitAPIException

text \<open>
  The call
  \<^verbatim>\<open>association_rules(frequent_itemsets, metric="confidence", min_threshold=min_confidence)\<close>
  as the library answers it. The library, which is not code of the repository, refuses an
  empty table of frequent itemsets with a \<^verbatim>\<open>ValueError\<close> before it generates anything; on
  every other table it is the generator above. The spec does not describe this check.
\<close>

definition association_rules_call ::
  "('p list \<times> rat) list \<Rightarrow> rat \<Rightarrow> run_error + 'p list rule list" where
  "association_rules_call frequent_itemsets min_confidence =
     (if frequent_itemsets = [] then Inl ValueError
      else case association_rules frequent_itemsets min_confidence of
             Inl e \<Rightarrow> Inl (Core e)
           | Inr rules \<Rightarrow> Inr rules)"

text \<open>
  The call \<^verbatim>\<open>st.sidebar.slider(label, min_value=.., max_value=.., value=.., step=0.01)\<close> as
  the widget library answers it. The library, which is not code of the repository,
  refuses a range whose minimum is not below its maximum with an exception; otherwise the
  result is the position the user moved the slider to, if any, and \<open>value\<close> before that.
\<close>

definition st_slider :: "rat \<Rightarrow> rat \<Rightarrow> rat \<Rightarrow> rat option \<Rightarrow> run_error + rat" where
  "st_slider min_value max_value val position =
     (if min_value < max_value
      then Inr (case position of None \<Rightarrow> val | Some v \<Rightarrow> v)
      else Inl StreamlitAPIException)"

text \<open>
  The script from the uploaded table on, statement by statement: the basket table, the
  frequent itemsets, the rules, the lift filter, then the warning for an empty rule table
  or else the two defaults, the slider and the graph. An exception is not caught
  anywhere, so the first one ends the run. \<open>position\<close> is where the user moved the slider
  of the graph threshold, if at all.
\<close>

definition dashboard ::
  "('o::linorder \<times> string) list \<Rightarrow> rat \<Rightarrow> rat \<Rightarrow> rat \<Rightarrow> metric \<Rightarrow> rat option \<Rightarrow>
     run_error + page" where
  "dashboard df min_support min_confidence min_lift metric_choice position =
     (case apriori (basket_sets df) min_support of
        Inl e \<Rightarrow> Inl (Core e)
      | Inr frequent_itemsets \<Rightarrow>
          (case association_rules_call frequent_itemsets min_confidence of
             Inl e \<Rightarrow> Inl e
           | Inr generated \<Rightarrow>
               let rules = filter (\<lambda>r. lift r \<ge> min_lift) generated
               in if rules = [] then Inr NoRulesWarning
                  else
                    let min_default = min_val_default rules metric_choice;
                        max_default = max_val_default rules metric_choice
                    in case st_slider min_default max_default min_default position of
                         Inl e \<Rightarrow> Inl e
                       | Inr min_val \<Rightarrow>
                           Inr (RulesPage (display_rules rules)
                                  (draw_network rules metric_choice min_val))))"

subsection \<open>Notions used to state the properties\<close>

text \<open>The surviving rules that map to the ordered item pair \<open>(x, y)\<close>, in table order.\<close>

definition pair_rules :: "'i list rule list \<Rightarrow> metric \<Rightarrow> rat \<Rightarrow> 'i \<Rightarrow> 'i \<Rightarrow> 'i list rule list" where
  "pair_rules rules selected_metric min_val x y =
     filter (\<lambda>r. x \<in> set (antecedents r) \<and> y \<in> set (consequents r))
       (filtered_rules rules selected_metric min_val)"

text \<open>The number of edges of a graph with a given source and target.\<close>

definition edge_count :: "'i digraph \<Rightarrow> 'i \<times> 'i \<Rightarrow> nat" where
  "edge_count G k = length (filter (\<lambda>e. fst e = k) (edges G))"

text \<open>The attributes of the edge with a given source and target, if there is one.\<close>

definition edge_attr_of :: "'i digraph \<Rightarrow> 'i \<times> 'i \<Rightarrow> edge_attr option" where
  "edge_attr_of G k = map_of (edges G) k"

text \<open>The number of entries of a dictionary under a key.\<close>

definition key_count :: "'k \<Rightarrow> ('k \<times> 'v) list \<Rightarrow> nat" where
  "key_count k ps = length (filter (\<lambda>e. fst e = k) ps)"

text \<open>
  The calls of \<^verbatim>\<open>add_edge\<close> that the two inner loops make for one row, in order, each as
  the edge with its attributes; and one such call.
\<close>

definition row_calls :: "metric \<Rightarrow> 'i list rule \<Rightarrow> (('i \<times> 'i) \<times> edge_attr) list" where
  "row_calls m r =
     concat (map (\<lambda>a. map (\<lambda>c. ((a, c), row_attr m r)) (consequents r)) (antecedents r))"

definition add_call :: "(('i \<times> 'i) \<times> edge_attr) \<Rightarrow> 'i digraph \<Rightarrow> 'i digraph" where
  "add_call c G = add_edge (fst (fst c)) (snd (fst c)) (snd c) G"

text \<open>An itemset over the store's items whose support reaches the threshold.\<close>

definition frequent_itemset :: "('o, 'p::linorder) frame \<Rightarrow> rat \<Rightarrow> 'p list \<Rightarrow> bool" where
  "frequent_itemset S ms I \<longleftrightarrow>
     I \<noteq> [] \<and> sorted I \<and> distinct I \<and> set I \<subseteq> set (columns S) \<and> ms \<le> support_of S I"

text \<open>The itemsets of exactly \<open>k\<close> items among them.\<close>

definition frequent_k :: "('o, 'p::linorder) frame \<Rightarrow> rat \<Rightarrow> nat \<Rightarrow> 'p list set" where
  "frequent_k S ms k =
     {I. sorted I \<and> distinct I \<and> set I \<subseteq> set (columns S) \<and> length I = k \<and> ms \<le> support_of S I}"

text \<open>
  Two rules that map to the same ordered pair (milk, bread) with different confidences.
\<close>

definition collision_rules :: "string list rule list" where
  "collision_rules =
     [\<lparr>antecedents = [''milk''], consequents = [''bread''],
        support = 1 / 2, confidence = 9 / 10, lift = 6 / 5\<rparr>,
      \<lparr>antecedents = [''milk'', ''eggs''], consequents = [''bread''],
        support = 3 / 10, confidence = 3 / 5, lift = 4 / 5\<rparr>]"

text \<open>The transactions of the spec's example scenario.\<close>

definition example_df :: "(nat \<times> string) list" where
  "example_df =
     [(1, ''milk''), (1, ''bread''), (2, ''milk''), (2, ''bread''), (2, ''eggs''),
      (3, ''milk''), (4, ''bread''), (4, ''eggs'')]"

text \<open>
  The rules of the example scenario at \<open>min_support = 1/2\<close>, \<open>min_confidence = 1/2\<close> and
  \<open>min_lift = 1\<close>.
\<close>

definition example_rules :: "string list rule list" where
  "example_rules =
     [\<lparr>antecedents = [''bread''], consequents = [''eggs''], support = 1 / 2,
        confidence = 2 / 3, lift = 4 / 3\<rparr>,
      \<lparr>antecedents = [''eggs''], consequents = [''bread''], support = 1 / 2,
        confidence = 1, lift = 4 / 3\<rparr>]"

text \<open>The rule of an itemset and an antecedent, with the supports read off the store.\<close>

definition rule_of :: "('o, 'p) frame \<Rightarrow> 'p list \<Rightarrow> 'p list \<Rightarrow> 'p list rule" where
  "rule_of S I A =
     (let C = filter (\<lambda>x. x \<notin> set A) I
      in \<lparr>antecedents = A, consequents = C, support = support_of S I,
          confidence = support_of S I / support_of S A,
          lift = support_of S I / support_of S A / support_of S C\<rparr>)"

text \<open>The candidate rules of a table of frequent itemsets, with the supports read off the store.\<close>

definition store_candidates :: "('o, 'p) frame \<Rightarrow> ('p list \<times> rat) list \<Rightarrow> 'p list rule list" where
  "store_candidates S t =
     concat (map (\<lambda>(I, s). map (rule_of S I) (bipartitions I))
               (filter (\<lambda>(I, s). length I \<ge> 2) t))"

text \<open>The frequent itemsets of the example scenario at \<open>min_support = 1/2\<close>.\<close>

definition example_itemsets :: "(string list \<times> rat) list" where
  "example_itemsets =
     [([''bread''], 3 / 4), ([''eggs''], 1 / 2), ([''milk''], 3 / 4),
      ([''bread'', ''eggs''], 1 / 2), ([''bread'', ''milk''], 1 / 2)]"

text \<open>The rule milk \<rightarrow> bread of the example scenario, with the metrics as the spec writes them.\<close>

definition milk_bread_rule :: "string list rule" where
  "milk_bread_rule =
     \<lparr>antecedents = [''milk''], consequents = [''bread''], support = 1 / 2,
      confidence = (1 / 2) / (3 / 4), lift = (1 / 2) / (3 / 4) / (3 / 4)\<rparr>"

text \<open>The split of a string at its leftmost \<^verbatim>\<open>', '\<close>, if it has one.\<close>

fun find_sep :: "string \<Rightarrow> (string \<times> string) option" where
  "find_sep (c # d # cs) =
     (if c = CHR '','' \<and> d = CHR '' '' then Some ([], cs)
      else map_option (\<lambda>(a, b). (c # a, b)) (find_sep (d # cs)))"
| "find_sep cs = None"

text \<open>An item name that does not contain \<^verbatim>\<open>', '\<close>.\<close>

definition no_sep :: "string \<Rightarrow> bool" where
  "no_sep x \<longleftrightarrow> find_sep x = None"







section \<open>Properties of the graph construction\<close>

subsection \<open>The edge dictionary\<close>

lemma map_of_dict_set: "map_of (dict_set k v ps) = (map_of ps)(k \<mapsto> v)"
  by (induction ps) (auto simp: fun_eq_iff)

lemma keys_dict_set: "fst ` set (dict_set k v ps) = insert k (fst ` set ps)"
  by (induction ps) auto

lemma key_count_dict_set:
  "key_count k' (dict_set k v ps) =
     (if k' = k \<and> key_count k ps = 0 then 1 else key_count k' ps)"
  by (induction ps) (auto simp: key_count_def)

lemma key_count_pos: "0 < key_count k ps \<longleftrightarrow> k \<in> fst ` set ps"
  by (induction ps) (auto simp: key_count_def)

lemma set_add_node: "set (add_node n ns) = insert n (set ns)"
  by (auto simp: add_node_def)

subsection \<open>The loops as one sequence of calls of \<open>add_edge\<close>\<close>

lemma fold_inner:
  "fold (\<lambda>cons G. add_edge a cons x G) cs G = fold add_call (map (\<lambda>c. ((a, c), x)) cs) G"
  by (induction cs arbitrary: G) (auto simp: add_call_def)

lemma fold_outer:
  "fold (\<lambda>ant G. fold (\<lambda>cons G. add_edge ant cons x G) cs G) as G =
   fold add_call (concat (map (\<lambda>a. map (\<lambda>c. ((a, c), x)) cs) as)) G"
  by (induction as arbitrary: G) (auto simp: fold_inner)

lemma add_row_edges_calls: "add_row_edges m r G = fold add_call (row_calls m r) G"
  unfolding add_row_edges_def row_calls_def by (rule fold_outer)

lemma fold_rows_calls:
  "fold (add_row_edges m) rs G = fold add_call (concat (map (row_calls m) rs)) G"
  by (induction rs arbitrary: G) (auto simp: add_row_edges_calls)

lemma edges_add_call: "edges (add_call c G) = dict_set (fst c) (snd c) (edges G)"
  by (simp add: add_call_def add_edge_def)

lemma nodes_add_call:
  "set (nodes (add_call c G)) = {fst (fst c), snd (fst c)} \<union> set (nodes G)"
  by (auto simp: add_call_def add_edge_def set_add_node)

lemma map_of_fold_calls:
  "map_of (edges (fold add_call cs G)) = map_of (edges G) ++ map_of (rev cs)"
  by (induction cs arbitrary: G)
    (auto simp: edges_add_call map_of_dict_set fun_eq_iff map_add_def split: option.splits)

lemma keys_fold_calls:
  "fst ` set (edges (fold add_call cs G)) = fst ` set (edges G) \<union> fst ` set cs"
  by (induction cs arbitrary: G) (auto simp: edges_add_call keys_dict_set)

lemma nodes_fold_calls:
  "set (nodes (fold add_call cs G)) =
     set (nodes G) \<union> fst ` fst ` set cs \<union> snd ` fst ` set cs"
  by (induction cs arbitrary: G) (auto simp: nodes_add_call)

lemma key_count_fold_calls:
  "(\<And>k. key_count k (edges G) \<le> 1) \<Longrightarrow> key_count k (edges (fold add_call cs G)) \<le> 1"
  by (induction cs arbitrary: G k) (auto simp: edges_add_call key_count_dict_set)

lemma keys_row_calls:
  "fst ` set (row_calls m r) = set (antecedents r) \<times> set (consequents r)"
  by (auto simp: row_calls_def image_iff)

lemma snd_row_calls: "e \<in> set (row_calls m r) \<Longrightarrow> snd e = row_attr m r"
  by (auto simp: row_calls_def)

lemma map_of_const:
  "(\<And>e. e \<in> set l \<Longrightarrow> snd e = v) \<Longrightarrow>
     map_of l k = (if k \<in> fst ` set l then Some v else None)"
  by (induction l) (auto simp: image_iff)

lemma map_of_rev_row_calls:
  "map_of (rev (row_calls m r)) (x, y) =
     (if x \<in> set (antecedents r) \<and> y \<in> set (consequents r) then Some (row_attr m r)
      else None)"
proof -
  have "map_of (rev (row_calls m r)) (x, y) =
      (if (x, y) \<in> fst ` set (rev (row_calls m r)) then Some (row_attr m r) else None)"
    by (rule map_of_const) (simp add: snd_row_calls)
  then show ?thesis by (simp add: keys_row_calls)
qed

lemma map_of_rev_all_calls:
  "map_of (rev (concat (map (row_calls m) rs))) (x, y) =
     (let ps = filter (\<lambda>r. x \<in> set (antecedents r) \<and> y \<in> set (consequents r)) rs
      in if ps = [] then None else Some (row_attr m (last ps)))"
proof (induction rs rule: rev_induct)
  case Nil
  then show ?case by simp
next
  case (snoc r rs)
  show ?case
    using snoc.IH
    by (simp add: map_add_def map_of_rev_row_calls Let_def split: option.splits)
qed

subsection \<open>The graph of \<open>draw_network\<close>\<close>

lemma draw_network_calls:
  "draw_network rules m minv =
     fold add_call (concat (map (row_calls m) (filtered_rules rules m minv))) empty_graph"
  by (simp add: draw_network_def fold_rows_calls)

lemma draw_network_attr:
  "edge_attr_of (draw_network rules m minv) (x, y) =
     (if pair_rules rules m minv x y = [] then None
      else Some (row_attr m (last (pair_rules rules m minv x y))))"
  by (simp add: edge_attr_of_def draw_network_calls map_of_fold_calls empty_graph_def
      map_of_rev_all_calls pair_rules_def Let_def)

lemma draw_network_keys:
  "fst ` set (edges (draw_network rules m minv)) =
     (\<Union>r \<in> set (filtered_rules rules m minv). set (antecedents r) \<times> set (consequents r))"
  by (simp add: draw_network_calls keys_fold_calls empty_graph_def image_UN keys_row_calls)

lemma draw_network_nodes:
  "set (nodes (draw_network rules m minv)) =
     fst ` fst ` set (edges (draw_network rules m minv)) \<union>
     snd ` fst ` set (edges (draw_network rules m minv))"
  by (simp add: draw_network_calls nodes_fold_calls keys_fold_calls empty_graph_def)

lemma pair_rules_nonempty:
  "pair_rules rules m minv x y \<noteq> [] \<longleftrightarrow>
     (x, y) \<in> (\<Union>r \<in> set (filtered_rules rules m minv).
                 set (antecedents r) \<times> set (consequents r))"
  by (auto simp: pair_rules_def filter_empty_conv)

lemma draw_network_count:
  "edge_count (draw_network rules m minv) k =
     (if k \<in> fst ` set (edges (draw_network rules m minv)) then 1 else 0)"
proof -
  have le: "key_count k (edges (draw_network rules m minv)) \<le> 1"
    unfolding draw_network_calls
    by (rule key_count_fold_calls) (simp add: empty_graph_def key_count_def)
  have "0 < key_count k (edges (draw_network rules m minv)) \<longleftrightarrow>
      k \<in> fst ` set (edges (draw_network rules m minv))"
    by (rule key_count_pos)
  with le show ?thesis
    unfolding edge_count_def key_count_def [symmetric]
    by (cases "k \<in> fst ` set (edges (draw_network rules m minv))") simp_all
qed

lemma add_row_edges_attr:
  assumes "a \<in> set (antecedents r)" "c \<in> set (consequents r)"
  shows "edge_attr_of (add_row_edges m r G) (a, c) = Some (row_attr m r)"
  using assms
  by (simp add: edge_attr_of_def add_row_edges_calls map_of_fold_calls map_add_def
      map_of_rev_row_calls)

subsection \<open>Edge collisions\<close>

text \<open>
  Claim C1, as stated, fails. With the two rules of \<open>collision_rules\<close>, which both map to
  the pair (milk, bread), the graph has one edge from milk to bread, and its weight is
  3/5, the confidence of the rule inserted last, while the maximum of the two weights is
  9/10.
\<close>

theorem draw_network_collision_not_max:
  "edge_count (draw_network collision_rules Confidence (1 / 2)) (''milk'', ''bread'') = 1 \<and>
   map_option weight
     (edge_attr_of (draw_network collision_rules Confidence (1 / 2)) (''milk'', ''bread'')) =
     Some (3 / 5) \<and>
   Max (set (map (metric_value Confidence)
     (pair_rules collision_rules Confidence (1 / 2) ''milk'' ''bread''))) = 9 / 10"
  by code_simp

text \<open>
  Claim C1, amended. Whenever at least one surviving rule maps to the ordered item pair
  \<open>(x, y)\<close>, the graph of \<open>draw_network\<close> contains exactly one edge from \<open>x\<close> to \<open>y\<close>, and its
  attributes are those of the last such rule in the order of the rule table: its weight
  is that rule's value of the selected metric.
\<close>

theorem draw_network_collision_last:
  assumes "pair_rules rules selected_metric min_val x y \<noteq> []"
  shows "edge_count (draw_network rules selected_metric min_val) (x, y) = 1 \<and>
         edge_attr_of (draw_network rules selected_metric min_val) (x, y) =
           Some (row_attr selected_metric (last (pair_rules rules selected_metric min_val x y))) \<and>
         map_option weight (edge_attr_of (draw_network rules selected_metric min_val) (x, y)) =
           Some (metric_value selected_metric
                  (last (pair_rules rules selected_metric min_val x y)))"
proof -
  have "(x, y) \<in> fst ` set (edges (draw_network rules selected_metric min_val))"
    using assms unfolding draw_network_keys pair_rules_nonempty .
  then show ?thesis
    using assms by (simp add: draw_network_attr draw_network_count row_attr_def)
qed

text \<open>The amended claim C1 at the two colliding rules.\<close>

theorem draw_network_collision_last_witness:
  "pair_rules collision_rules Confidence (1 / 2) ''milk'' ''bread'' \<noteq> [] \<and>
   edge_count (draw_network collision_rules Confidence (1 / 2)) (''milk'', ''bread'') = 1 \<and>
   map_option weight
     (edge_attr_of (draw_network collision_rules Confidence (1 / 2)) (''milk'', ''bread'')) =
     Some (metric_value Confidence (last collision_rules))"
proof -
  have p: "pair_rules collision_rules Confidence (1 / 2) ''milk'' ''bread'' = collision_rules"
    by code_simp
  have n: "collision_rules \<noteq> []"
    by (simp add: collision_rules_def)
  show ?thesis
    using draw_network_collision_last
      [of collision_rules Confidence "1 / 2" "''milk''" "''bread''"] n
    unfolding p by (simp add: row_attr_def)
qed

subsection \<open>Filter and cross product\<close>

text \<open>
  Claim C2. Graph construction keeps exactly the rules whose value of the selected metric
  is at least \<open>min_val\<close>. The step for one rule adds, for every antecedent item and every
  consequent item, an edge that carries the rule's value of the selected metric as weight
  and the rule's formatted lift as title. The edges of the finished graph are exactly the
  pairs of the cross products of the surviving rules, every edge carries the weight and
  the lift annotation of a surviving rule that maps to it, and the nodes are exactly the
  items incident to an edge.
\<close>

theorem draw_network_cross_product:
  fixes rules :: "'i list rule list"
  shows
  "filtered_rules rules selected_metric min_val =
     filter (\<lambda>r. metric_value selected_metric r \<ge> min_val) rules \<and>
   (\<forall>(r :: 'i list rule) G a c. a \<in> set (antecedents r) \<longrightarrow> c \<in> set (consequents r) \<longrightarrow>
      edge_attr_of (add_row_edges selected_metric r G) (a, c) =
        Some \<lparr>weight = metric_value selected_metric r,
              title = ''Lift: '' @ format_2f (lift r)\<rparr>) \<and>
   fst ` set (edges (draw_network rules selected_metric min_val)) =
     {(a, c). \<exists>r \<in> set rules. metric_value selected_metric r \<ge> min_val \<and>
                a \<in> set (antecedents r) \<and> c \<in> set (consequents r)} \<and>
   (\<forall>k attr. edge_attr_of (draw_network rules selected_metric min_val) k = Some attr \<longrightarrow>
      (\<exists>r \<in> set rules. metric_value selected_metric r \<ge> min_val \<and>
          fst k \<in> set (antecedents r) \<and> snd k \<in> set (consequents r) \<and>
          attr = \<lparr>weight = metric_value selected_metric r,
                   title = ''Lift: '' @ format_2f (lift r)\<rparr>)) \<and>
   set (nodes (draw_network rules selected_metric min_val)) =
     {n. \<exists>e \<in> fst ` set (edges (draw_network rules selected_metric min_val)).
           n = fst e \<or> n = snd e}"
proof -
  let ?G = "draw_network rules selected_metric min_val"
  have c1: "filtered_rules rules selected_metric min_val =
      filter (\<lambda>r. metric_value selected_metric r \<ge> min_val) rules"
    by (simp add: filtered_rules_def)
  have c2: "edge_attr_of (add_row_edges selected_metric r G) (a, c) =
      Some \<lparr>weight = metric_value selected_metric r, title = ''Lift: '' @ format_2f (lift r)\<rparr>"
    if "a \<in> set (antecedents r)" "c \<in> set (consequents r)"
    for r :: "'i list rule" and G a c
    using add_row_edges_attr [OF that, of selected_metric G] by (simp add: row_attr_def)
  have c3: "fst ` set (edges ?G) =
     {(a, c). \<exists>r \<in> set rules. metric_value selected_metric r \<ge> min_val \<and>
                a \<in> set (antecedents r) \<and> c \<in> set (consequents r)}"
    unfolding draw_network_keys by (auto simp: filtered_rules_def)
  have c4: "\<exists>r \<in> set rules. metric_value selected_metric r \<ge> min_val \<and>
          fst k \<in> set (antecedents r) \<and> snd k \<in> set (consequents r) \<and>
          attr = \<lparr>weight = metric_value selected_metric r,
                   title = ''Lift: '' @ format_2f (lift r)\<rparr>"
    if a: "edge_attr_of ?G k = Some attr" for k attr
  proof -
    obtain x y where k: "k = (x, y)" by (cases k)
    let ?ps = "pair_rules rules selected_metric min_val x y"
    from a have ne: "?ps \<noteq> []" and attr: "attr = row_attr selected_metric (last ?ps)"
      unfolding k draw_network_attr by (auto split: if_splits)
    from ne have "last ?ps \<in> set ?ps" by (rule last_in_set)
    then have "last ?ps \<in> set rules" "metric_value selected_metric (last ?ps) \<ge> min_val"
      "x \<in> set (antecedents (last ?ps))" "y \<in> set (consequents (last ?ps))"
      by (auto simp: pair_rules_def filtered_rules_def)
    with attr show ?thesis
      unfolding k by (intro bexI [of _ "last ?ps"]) (simp_all add: row_attr_def)
  qed
  have c5: "set (nodes ?G) = {n. \<exists>e \<in> fst ` set (edges ?G). n = fst e \<or> n = snd e}"
    unfolding draw_network_nodes by force
  from c1 c2 c3 c4 c5 show ?thesis by blast
qed


text \<open>Claim C2 at the two rules of \<open>collision_rules\<close>, the second of which the threshold 7/10 drops.\<close>

theorem draw_network_cross_product_witness:
  "''milk'' \<in> set (antecedents (hd collision_rules)) \<and>
   ''bread'' \<in> set (consequents (hd collision_rules)) \<and>
   edge_attr_of (add_row_edges Confidence (hd collision_rules) empty_graph)
     (''milk'', ''bread'') = Some \<lparr>weight = 9 / 10, title = ''Lift: 1.20''\<rparr> \<and>
   filtered_rules collision_rules Confidence (7 / 10) = [hd collision_rules] \<and>
   fst ` set (edges (draw_network collision_rules Confidence (7 / 10))) =
     {(''milk'', ''bread'')} \<and>
   set (nodes (draw_network collision_rules Confidence (7 / 10))) = {''milk'', ''bread''}"
proof -
  have m: "''milk'' \<in> set (antecedents (hd collision_rules))"
    and b: "''bread'' \<in> set (consequents (hd collision_rules))"
    by (simp_all add: collision_rules_def)
  have v: "metric_value Confidence (hd collision_rules) = 9 / 10"
    by (simp add: collision_rules_def)
  have t: "''Lift: '' @ format_2f (lift (hd collision_rules)) = ''Lift: 1.20''"
    by code_simp
  have f: "filtered_rules collision_rules Confidence (7 / 10) = [hd collision_rules]"
    by code_simp
  have e: "fst ` set (edges (draw_network collision_rules Confidence (7 / 10))) =
      {(''milk'', ''bread'')}"
    by code_simp
  have n: "set (nodes (draw_network collision_rules Confidence (7 / 10))) = {''milk'', ''bread''}"
    by code_simp
  have a: "edge_attr_of (add_row_edges Confidence (hd collision_rules) empty_graph)
      (''milk'', ''bread'') =
      Some \<lparr>weight = metric_value Confidence (hd collision_rules),
             title = ''Lift: '' @ format_2f (lift (hd collision_rules))\<rparr>"
    by (rule draw_network_cross_product [of collision_rules Confidence "7 / 10",
          THEN conjunct2, THEN conjunct1, rule_format, OF m b])
  show ?thesis
    using m b f e n a unfolding v t by (intro conjI)
qed

subsection \<open>The default threshold of the graph stage\<close>







section \<open>Properties of the mining stage\<close>

subsection \<open>Support\<close>

lemma length_filter_mono:
  "(\<And>x. x \<in> set xs \<Longrightarrow> P x \<Longrightarrow> Q x) \<Longrightarrow> length (filter P xs) \<le> length (filter Q xs)"
proof (induction xs)
  case Nil
  then show ?case by simp
next
  case (Cons x xs)
  then have "length (filter P xs) \<le> length (filter Q xs)" by simp
  with Cons.prems show ?case by auto
qed

lemma containing_count_mono:
  assumes "set A \<subseteq> set B"
  shows "containing_count S B \<le> containing_count S A"
  unfolding containing_count_def
  by (rule length_filter_mono) (use assms in \<open>auto simp: list_all_iff\<close>)

lemma support_of_mono:
  assumes "set A \<subseteq> set B"
  shows "support_of S B \<le> support_of S A"
  using containing_count_mono [OF assms, of S]
  by (simp add: support_of_def divide_right_mono)

lemma containing_count_le: "containing_count S I \<le> transaction_count S"
  by (simp add: containing_count_def transaction_count_def)

lemma support_of_bounds: "0 \<le> support_of S I \<and> support_of S I \<le> 1"
  using containing_count_le [of S I]
  by (auto simp: support_of_def divide_le_eq_1)

lemma set_store_items: "set (store_items S) = set (columns S)"
  by (simp add: store_items_def)

lemma length_one_conv: "length I = Suc 0 \<longleftrightarrow> (\<exists>i. I = [i])"
  by (cases I) auto

lemma level_one_frequent: "set (level_one S ms) = frequent_k S ms 1"
  by (auto simp: level_one_def frequent_k_def set_store_items length_one_conv)

lemma canonical_idem: "sorted I \<Longrightarrow> distinct I \<Longrightarrow> sorted_list_of_set (set I) = I"
  by (simp add: sorted_list_of_set.idem_if_sorted_distinct)

lemma shared_card:
  "distinct a \<Longrightarrow> length (filter (\<lambda>x. x \<in> set b) a) = card (set a \<inter> set b)"
proof -
  assume d: "distinct a"
  have "set (filter (\<lambda>x. x \<in> set b) a) = set a \<inter> set b" by auto
  moreover have "distinct (filter (\<lambda>x. x \<in> set b) a)" using d by simp
  ultimately show ?thesis by (metis distinct_card)
qed

lemma join_step_sound:
  assumes L: "set L = frequent_k S ms k" and I: "I \<in> set (join_step (Suc k) L)" and k: "k \<ge> 1"
  shows "sorted I \<and> distinct I \<and> set I \<subseteq> set (columns S) \<and> length I = Suc k"
proof -
  from I obtain a b where ab: "a \<in> set L" "b \<in> set L"
    and sh: "length (filter (\<lambda>x. x \<in> set b) a) = Suc k - 2"
    and Ieq: "I = sorted_list_of_set (set a \<union> set b)"
    by (auto simp: join_step_def)
  from ab L have a: "sorted a" "distinct a" "set a \<subseteq> set (columns S)" "length a = k"
    and b: "sorted b" "distinct b" "set b \<subseteq> set (columns S)" "length b = k"
    by (auto simp: frequent_k_def)
  have ci: "card (set a \<inter> set b) = k - 1"
    using sh a(2) by (simp add: shared_card)
  have "card (set a \<union> set b) + card (set a \<inter> set b) = card (set a) + card (set b)"
    using card_Un_Int [of "set a" "set b"] by simp
  then have "card (set a \<union> set b) = Suc k"
    using ci a(2,4) b(2,4) k by (simp add: distinct_card)
  then have "length I = Suc k"
    by (simp add: Ieq)
  moreover have "sorted I" "distinct I" "set I \<subseteq> set (columns S)"
    using a(3) b(3) by (simp_all add: Ieq)
  ultimately show ?thesis by simp
qed

lemma sub_frequent:
  assumes "I \<in> frequent_k S ms k" "x \<in> set I"
  shows "remove1 x I \<in> frequent_k S ms (k - 1)"
proof -
  have "support_of S I \<le> support_of S (remove1 x I)"
    by (rule support_of_mono) (rule set_remove1_subset)
  with assms show ?thesis
    by (auto simp: frequent_k_def sorted_remove1 length_remove1 dest: notin_set_remove1)
qed

lemma join_step_complete:
  assumes L: "set L = frequent_k S ms k" and I: "I \<in> frequent_k S ms (Suc k)" and k: "k \<ge> 1"
  shows "I \<in> set (join_step (Suc k) L)"
proof -
  from I k obtain x y rest where Ieq: "I = x # y # rest"
    by (cases I; cases "tl I") (auto simp: frequent_k_def)
  have sd: "sorted I" "distinct I" and len: "length I = Suc k"
    using I by (auto simp: frequent_k_def)
  let ?a = "remove1 x I" and ?b = "remove1 y I"
  have a: "?a \<in> set L" and b: "?b \<in> set L"
    using sub_frequent [OF I, of x] sub_frequent [OF I, of y] L by (simp_all add: Ieq)
  have aeq: "?a = y # rest" and beq: "?b = x # rest"
    using sd(2) by (auto simp: Ieq)
  have "filter (\<lambda>z. z \<in> set ?b) ?a = rest"
    using sd(2) unfolding aeq beq Ieq by (auto simp: filter_id_conv)
  then have sh: "length (filter (\<lambda>z. z \<in> set ?b) ?a) = Suc k - 2"
    using len by (simp add: Ieq)
  have "set ?a \<union> set ?b = set I"
    unfolding aeq beq Ieq by auto
  then have u: "sorted_list_of_set (set ?a \<union> set ?b) = I"
    using sd by (simp add: canonical_idem)
  show ?thesis
    unfolding join_step_def set_remdups set_concat set_map image_image
    using a b sh u by (intro UN_I [of ?a]) (auto intro!: image_eqI [of _ _ ?b])
qed

lemma next_level_frequent:
  assumes L: "set L = frequent_k S ms k" and k: "k \<ge> 1"
  shows "set (next_level S ms (Suc k) L) = frequent_k S ms (Suc k)"
proof (intro equalityI subsetI)
  fix I assume "I \<in> set (next_level S ms (Suc k) L)"
  then have j: "I \<in> set (join_step (Suc k) L)" and s: "ms \<le> support_of S I"
    by (auto simp: next_level_def prune_step_def)
  from join_step_sound [OF L j k] s show "I \<in> frequent_k S ms (Suc k)"
    by (simp add: frequent_k_def)
next
  fix I assume I: "I \<in> frequent_k S ms (Suc k)"
  have j: "I \<in> set (join_step (Suc k) L)"
    by (rule join_step_complete [OF L I k])
  have "list_all (\<lambda>x. remove1 x I \<in> set L) I"
    using sub_frequent [OF I] L by (simp add: list_all_iff)
  moreover have "ms \<le> support_of S I" using I by (simp add: frequent_k_def)
  ultimately show "I \<in> set (next_level S ms (Suc k) L)"
    using j by (simp add: next_level_def prune_step_def)
qed

lemma frequent_take:
  assumes "I \<in> frequent_k S ms j" "k \<le> j"
  shows "take k I \<in> frequent_k S ms k"
proof -
  have "support_of S I \<le> support_of S (take k I)"
    by (rule support_of_mono) (rule set_take_subset)
  moreover have "set (take k I) \<subseteq> set I" by (rule set_take_subset)
  ultimately show ?thesis
    using assms by (auto simp: frequent_k_def sorted_wrt_take)
qed

lemma frequent_empty_up:
  assumes "frequent_k S ms k = {}" "k \<le> j"
  shows "frequent_k S ms j = {}"
  using frequent_take [OF _ assms(2), of _ S ms] assms(1) by blast

lemma frequent_length_le:
  assumes "I \<in> frequent_k S ms j"
  shows "j \<le> length (store_items S)"
proof -
  have "card (set I) \<le> card (set (columns S))"
    using assms by (intro card_mono) (auto simp: frequent_k_def)
  moreover have "card (set I) = j"
    using assms by (auto simp: frequent_k_def distinct_card)
  ultimately show ?thesis
    by (simp add: store_items_def)
qed

lemma apriori_levels_frequent:
  assumes "set L = frequent_k S ms k" "k \<ge> 1"
  shows "set (apriori_levels S ms k L) = (\<Union>j \<in> {k..}. frequent_k S ms j)"
  using assms
proof (induction S ms k L rule: apriori_levels.induct)
  case (1 S ms k L)
  show ?case
  proof (cases "L = [] \<or> k > length (store_items S)")
    case True
    have "frequent_k S ms j = {}" if "k \<le> j" for j
    proof (cases "L = []")
      case True
      with "1.prems" have "frequent_k S ms k = {}" by simp
      then show ?thesis using that by (rule frequent_empty_up)
    next
      case False
      with \<open>L = [] \<or> k > length (store_items S)\<close> have "k > length (store_items S)" by simp
      with that frequent_length_le [of _ S ms j] show ?thesis by fastforce
    qed
    then have "(\<Union>j \<in> {k..}. frequent_k S ms j) = {}" by simp
    with True show ?thesis by (simp add: apriori_levels.simps)
  next
    case False
    have n: "set (next_level S ms (Suc k) L) = frequent_k S ms (Suc k)"
      using "1.prems" by (intro next_level_frequent) simp_all
    have IH: "set (apriori_levels S ms (Suc k) (next_level S ms (Suc k) L)) =
        (\<Union>j \<in> {Suc k..}. frequent_k S ms j)"
      using False n by (intro "1.IH") simp_all
    have "{k..} = insert k {Suc k..}" by auto
    then have "(\<Union>j \<in> {k..}. frequent_k S ms j) = frequent_k S ms k \<union> (\<Union>j \<in> {Suc k..}. frequent_k S ms j)"
      by simp
    with False IH "1.prems"(1) show ?thesis
      by (simp add: apriori_levels.simps [of S ms k L])
  qed
qed

lemma mined_itemsets:
  "set (apriori_levels S ms 1 (level_one S ms)) = {I. frequent_itemset S ms I}"
proof -
  have "set (apriori_levels S ms 1 (level_one S ms)) = (\<Union>j \<in> {1..}. frequent_k S ms j)"
    by (rule apriori_levels_frequent) (simp_all add: level_one_frequent)
  also have "\<dots> = {I. frequent_itemset S ms I}"
    by (auto simp: frequent_k_def frequent_itemset_def Suc_le_eq)
  finally show ?thesis .
qed

lemma apriori_Inr:
  assumes "0 < ms" "ms \<le> 1"
  shows "apriori S ms = Inr (map (\<lambda>I. (I, support_of S I)) (apriori_levels S ms 1 (level_one S ms)))"
  using assms by (simp add: apriori_def)

lemma map_of_table:
  "map_of (map (\<lambda>I. (I, f I)) xs) I = (if I \<in> set xs then Some (f I) else None)"
  by (induction xs) auto

lemma apriori_table:
  assumes "apriori S ms = Inr t"
  shows "map_of t I = (if frequent_itemset S ms I then Some (support_of S I) else None)"
    and "(I, s) \<in> set t \<longleftrightarrow> frequent_itemset S ms I \<and> s = support_of S I"
proof -
  from assms have t: "t = map (\<lambda>I. (I, support_of S I)) (apriori_levels S ms 1 (level_one S ms))"
    by (auto simp: apriori_def split: if_splits)
  show "map_of t I = (if frequent_itemset S ms I then Some (support_of S I) else None)"
    unfolding t map_of_table using mined_itemsets [of S ms] by auto
  show "(I, s) \<in> set t \<longleftrightarrow> frequent_itemset S ms I \<and> s = support_of S I"
    unfolding t using mined_itemsets [of S ms] by auto
qed

subsection \<open>Rule generation on the mined table\<close>

lemma subseqs_sorted:
  "ys \<in> set (subseqs xs) \<Longrightarrow> sorted xs \<Longrightarrow> sorted ys"
proof (induction xs arbitrary: ys)
  case Nil
  then show ?case by simp
next
  case (Cons x xs)
  from Cons.prems(2) have sx: "sorted xs" and lx: "\<forall>y \<in> set xs. x \<le> y" by simp_all
  from Cons.prems(1) consider zs where "ys = x # zs" "zs \<in> set (subseqs xs)"
    | "ys \<in> set (subseqs xs)"
    by (auto simp: Let_def)
  then show ?case
  proof cases
    case 1
    have "set zs \<subseteq> set xs"
      using 1(2) subseqs_powset [of xs] by blast
    with 1 Cons.IH [OF 1(2) sx] lx show ?thesis by auto
  next
    case 2
    then show ?thesis using Cons.IH sx by simp
  qed
qed

lemma subseqs_subset: "ys \<in> set (subseqs xs) \<Longrightarrow> set ys \<subseteq> set xs"
  using subseqs_powset [of xs] by blast

lemma bipartition_parts:
  assumes I: "sorted I" "distinct I" and A: "A \<in> set (bipartitions I)"
  shows "A \<noteq> [] \<and> sorted A \<and> distinct A \<and> set A \<subseteq> set I"
    and "filter (\<lambda>x. x \<notin> set A) I \<noteq> [] \<and> sorted (filter (\<lambda>x. x \<notin> set A) I) \<and>
         distinct (filter (\<lambda>x. x \<notin> set A) I) \<and> set (filter (\<lambda>x. x \<notin> set A) I) \<subseteq> set I"
    and "set A \<union> set (filter (\<lambda>x. x \<notin> set A) I) = set I"
    and "set A \<inter> set (filter (\<lambda>x. x \<notin> set A) I) = {}"
proof -
  from A have sub: "A \<in> set (subseqs I)" and ne: "A \<noteq> []" and neq: "A \<noteq> I"
    by (simp_all add: bipartitions_def)
  have sA: "sorted A" using sub I(1) by (rule subseqs_sorted)
  have dA: "distinct A" using sub I(2) by (rule subseqs_distinctD)
  have ss: "set A \<subseteq> set I" using sub by (rule subseqs_subset)
  show "A \<noteq> [] \<and> sorted A \<and> distinct A \<and> set A \<subseteq> set I"
    using ne sA dA ss by simp
  have "filter (\<lambda>x. x \<notin> set A) I \<noteq> []"
  proof
    assume "filter (\<lambda>x. x \<notin> set A) I = []"
    then have "set I \<subseteq> set A" by (auto simp: filter_empty_conv)
    with ss have "set A = set I" by auto
    with sA dA I have "A = I" by (intro sorted_distinct_set_unique)
    with neq show False by simp
  qed
  then show "filter (\<lambda>x. x \<notin> set A) I \<noteq> [] \<and> sorted (filter (\<lambda>x. x \<notin> set A) I) \<and>
         distinct (filter (\<lambda>x. x \<notin> set A) I) \<and> set (filter (\<lambda>x. x \<notin> set A) I) \<subseteq> set I"
    using I by (auto simp: sorted_wrt_filter)
  show "set A \<union> set (filter (\<lambda>x. x \<notin> set A) I) = set I"
    using ss by auto
  show "set A \<inter> set (filter (\<lambda>x. x \<notin> set A) I) = {}"
    by auto
qed

lemma support_of_set_cong: "set A = set B \<Longrightarrow> support_of S A = support_of S B"
  using support_of_mono [of A B S] support_of_mono [of B A S] by simp

lemma frequent_sub:
  assumes "frequent_itemset S ms I" "A \<noteq> []" "sorted A" "distinct A" "set A \<subseteq> set I"
  shows "frequent_itemset S ms A"
proof -
  have "support_of S I \<le> support_of S A"
    using assms(5) by (rule support_of_mono)
  with assms show ?thesis by (auto simp: frequent_itemset_def)
qed

lemma known_support_frequent:
  assumes t: "apriori S ms = Inr t" and f: "frequent_itemset S ms A"
  shows "known_support t A = Inr (support_of S A) \<and> 0 < support_of S A"
proof -
  from t have "0 < ms" by (auto simp: apriori_def split: if_splits)
  with f have pos: "0 < support_of S A" by (simp add: frequent_itemset_def)
  with apriori_table(1) [OF t, of A] f show ?thesis
    by (simp add: known_support_def)
qed

lemma candidate_rule_frequent:
  assumes t: "apriori S ms = Inr t" and I: "(I, s) \<in> set t" and A: "A \<in> set (bipartitions I)"
  shows "candidate_rule t I s A = Inr (rule_of S I A)"
proof -
  from apriori_table(2) [OF t, of I s] I
  have f: "frequent_itemset S ms I" and s: "s = support_of S I" by simp_all
  then have sd: "sorted I" "distinct I" by (simp_all add: frequent_itemset_def)
  let ?C = "filter (\<lambda>x. x \<notin> set A) I"
  have fa: "frequent_itemset S ms A"
    using bipartition_parts(1) [OF sd A] by (intro frequent_sub [OF f]) simp_all
  have fc: "frequent_itemset S ms ?C"
    using bipartition_parts(2) [OF sd A] by (intro frequent_sub [OF f]) simp_all
  show ?thesis
    using known_support_frequent [OF t fa] known_support_frequent [OF t fc]
    by (simp add: candidate_rule_def rule_of_def s Let_def)
qed

lemma collect_Inr: "collect (map Inr xs) = Inr xs"
  by (induction xs) simp_all

lemma collect_all_Inr:
  assumes "\<And>x. x \<in> set xs \<Longrightarrow> f x = Inr (g x)"
  shows "collect (map f xs) = Inr (map g xs)"
proof -
  have "map f xs = map Inr (map g xs)" using assms by simp
  then show ?thesis by (simp only: collect_Inr)
qed

lemma candidate_rules_frequent:
  assumes t: "apriori S ms = Inr t"
  shows "candidate_rules t = Inr (store_candidates S t)"
proof -
  let ?pairs = "concat (map (\<lambda>(I, s). map (\<lambda>A. (I, s, A)) (bipartitions I))
                   (filter (\<lambda>(I, s). length I \<ge> 2) t))"
  have l: "concat (map (\<lambda>(I, s). map (candidate_rule t I s) (bipartitions I))
                       (filter (\<lambda>(I, s). length I \<ge> 2) t)) =
      map (\<lambda>(I, s, A). candidate_rule t I s A) ?pairs"
    by (simp add: map_concat case_prod_unfold comp_def)
  have r: "store_candidates S t = map (\<lambda>(I, s, A). rule_of S I A) ?pairs"
    by (simp add: store_candidates_def map_concat case_prod_unfold comp_def)
  have "collect (map (\<lambda>(I, s, A). candidate_rule t I s A) ?pairs) =
      Inr (map (\<lambda>(I, s, A). rule_of S I A) ?pairs)"
  proof (rule collect_all_Inr)
    fix x assume "x \<in> set ?pairs"
    then obtain I s A where x: "x = (I, s, A)" and I: "(I, s) \<in> set t"
      and A: "A \<in> set (bipartitions I)"
      by auto
    show "(case x of (I, s, A) \<Rightarrow> candidate_rule t I s A) = Inr (case x of (I, s, A) \<Rightarrow> rule_of S I A)"
      unfolding x using candidate_rule_frequent [OF t I A] by simp
  qed
  then show ?thesis
    unfolding candidate_rules_def l r .
qed

lemma store_candidates_member:
  assumes t: "apriori S ms = Inr t" and r: "r \<in> set (store_candidates S t)"
  shows "\<exists>I A. frequent_itemset S ms I \<and> A \<in> set (bipartitions I) \<and> r = rule_of S I A"
proof -
  from r obtain I s A where "(I, s) \<in> set t" "A \<in> set (bipartitions I)" "r = rule_of S I A"
    by (auto simp: store_candidates_def)
  with apriori_table(2) [OF t, of I s] show ?thesis by blast
qed

subsection \<open>The basket table\<close>

lemma group_count_pos: "(0 < fillna0 (group_count df k)) \<longleftrightarrow> k \<in> set df"
  by (auto simp: group_count_def fillna0_def filter_empty_conv)

lemma basket_sets_eq:
  "basket_sets df =
     \<lparr>columns = sorted_list_of_set (snd ` set df),
      rows = map (\<lambda>ord. (ord, map (\<lambda>p. if (ord, p) \<in> set df then 1 else 0)
                                 (sorted_list_of_set (snd ` set df))))
               (sorted_list_of_set (fst ` set df))\<rparr>"
  by (simp add: basket_sets_def basket_def Let_def comp_def group_count_pos)

lemma basket_sets_cong: "set df = set df' \<Longrightarrow> basket_sets df = basket_sets df'"
  by (simp add: basket_sets_eq)

lemma basket_sets_empty: "basket_sets [] = \<lparr>columns = [], rows = []\<rparr>"
  by (simp add: basket_sets_eq)

subsection \<open>The pipeline returns\<close>

lemma mine_rules_valid:
  assumes "0 < ms" "ms \<le> 1"
  shows "\<exists>t. apriori (basket_sets df) ms = Inr t \<and>
           mine_rules df ms mc ml =
             Inr (filter (\<lambda>r. lift r \<ge> ml)
                   (filter (\<lambda>r. confidence r \<ge> mc) (store_candidates (basket_sets df) t)))"
proof -
  from assms obtain t where t: "apriori (basket_sets df) ms = Inr t"
    by (auto simp: apriori_def)
  show ?thesis
    using t candidate_rules_frequent [OF t]
    by (simp add: mine_rules_def association_rules_def)
qed

lemma apriori_empty_store:
  assumes "0 < ms" "ms \<le> 1"
  shows "apriori \<lparr>columns = [], rows = []\<rparr> ms = Inr []"
  using assms
  by (simp add: apriori_def level_one_def store_items_def apriori_levels.simps)

lemma dashboard_valid:
  assumes t: "apriori (basket_sets df) ms = Inr t"
  shows "dashboard df ms mc ml m position =
     (if t = [] then Inl ValueError
      else
        let rules = filter (\<lambda>r. lift r \<ge> ml)
                      (filter (\<lambda>r. confidence r \<ge> mc) (store_candidates (basket_sets df) t))
        in if rules = [] then Inr NoRulesWarning
           else case st_slider (min_val_default rules m) (max_val_default rules m)
                       (min_val_default rules m) position of
                  Inl e \<Rightarrow> Inl e
                | Inr min_val \<Rightarrow> Inr (RulesPage (display_rules rules) (draw_network rules m min_val)))"
  using candidate_rules_frequent [OF t]
  by (simp add: dashboard_def t association_rules_call_def association_rules_def Let_def)

lemma st_slider_error: "st_slider lo hi v position = Inl e \<Longrightarrow> e = StreamlitAPIException"
  by (simp add: st_slider_def split: if_splits)

subsection \<open>The metrics of a rule\<close>

lemma rule_of_metrics:
  assumes f: "frequent_itemset S ms I" and A: "A \<in> set (bipartitions I)"
  shows "support (rule_of S I A) =
           support_of S (antecedents (rule_of S I A) @ consequents (rule_of S I A)) \<and>
         confidence (rule_of S I A) =
           support (rule_of S I A) / support_of S (antecedents (rule_of S I A)) \<and>
         lift (rule_of S I A) =
           confidence (rule_of S I A) / support_of S (consequents (rule_of S I A))"
proof -
  from f have sd: "sorted I" "distinct I" by (simp_all add: frequent_itemset_def)
  have "set (A @ filter (\<lambda>x. x \<notin> set A) I) = set I"
    using bipartition_parts(3) [OF sd A] by simp
  then have "support_of S (A @ filter (\<lambda>x. x \<notin> set A) I) = support_of S I"
    by (rule support_of_set_cong)
  then show ?thesis
    by (simp add: rule_of_def Let_def)
qed

text \<open>
  Claim C3. On the table of frequent itemsets that mining returns for a store, rule
  generation succeeds, and every candidate rule (hence every emitted rule) satisfies:
  its support is the support of the union of antecedent and consequent, its confidence
  is its support divided by the support of the antecedent, and its lift is its confidence
  divided by the support of the consequent, the supports being the fractions of the
  store's transactions. In the example scenario with \<open>min_support = 1/2\<close> and
  \<open>min_confidence = 1/2\<close> the rule milk \<rightarrow> bread is emitted with confidence (1/2)/(3/4) and
  lift ((1/2)/(3/4))/(3/4).
\<close>

theorem association_rule_metrics:
  assumes "apriori S min_support = Inr frequent_itemsets"
  shows "\<exists>cands. candidate_rules frequent_itemsets = Inr cands \<and>
      association_rules frequent_itemsets min_confidence =
        Inr (filter (\<lambda>r. confidence r \<ge> min_confidence) cands) \<and>
      (\<forall>r \<in> set cands.
         support r = support_of S (antecedents r @ consequents r) \<and>
         confidence r = support r / support_of S (antecedents r) \<and>
         lift r = confidence r / support_of S (consequents r)) \<and>
      (\<exists>t rules. apriori (basket_sets example_df) (1 / 2) = Inr t \<and>
         association_rules t (1 / 2) = Inr rules \<and>
         \<lparr>antecedents = [''milk''], consequents = [''bread''], support = 1 / 2,
          confidence = (1 / 2) / (3 / 4), lift = (1 / 2) / (3 / 4) / (3 / 4)\<rparr> \<in> set rules)"
proof -
  let ?cands = "store_candidates S frequent_itemsets"
  have c: "candidate_rules frequent_itemsets = Inr ?cands"
    using assms by (rule candidate_rules_frequent)
  then have a: "association_rules frequent_itemsets min_confidence =
      Inr (filter (\<lambda>r. confidence r \<ge> min_confidence) ?cands)"
    by (simp add: association_rules_def)
  have m: "support r = support_of S (antecedents r @ consequents r) \<and>
         confidence r = support r / support_of S (antecedents r) \<and>
         lift r = confidence r / support_of S (consequents r)"
    if "r \<in> set ?cands" for r
  proof -
    from store_candidates_member [OF assms that] obtain I A
      where "frequent_itemset S min_support I" "A \<in> set (bipartitions I)" "r = rule_of S I A"
      by blast
    then show ?thesis using rule_of_metrics by blast
  qed
  have e1: "apriori (basket_sets example_df) (1 / 2) = Inr example_itemsets"
    by code_simp
  have e2: "association_rules example_itemsets (1 / 2) =
      Inr [\<lparr>antecedents = [''bread''], consequents = [''eggs''], support = 1 / 2,
             confidence = 2 / 3, lift = 4 / 3\<rparr>,
           \<lparr>antecedents = [''eggs''], consequents = [''bread''], support = 1 / 2,
             confidence = 1, lift = 4 / 3\<rparr>,
           \<lparr>antecedents = [''bread''], consequents = [''milk''], support = 1 / 2,
             confidence = 2 / 3, lift = 8 / 9\<rparr>,
           \<lparr>antecedents = [''milk''], consequents = [''bread''], support = 1 / 2,
             confidence = 2 / 3, lift = 8 / 9\<rparr>]"
    by code_simp
  have e: "\<exists>t rules. apriori (basket_sets example_df) (1 / 2) = Inr t \<and>
         association_rules t (1 / 2) = Inr rules \<and>
         \<lparr>antecedents = [''milk''], consequents = [''bread''], support = 1 / 2,
          confidence = (1 / 2) / (3 / 4), lift = (1 / 2) / (3 / 4) / (3 / 4)\<rparr> \<in> set rules"
    by (rule exI [of _ example_itemsets], rule exI, intro conjI, rule e1, rule e2) simp
  from c a m e show ?thesis by blast
qed

text \<open>Claim C3 at the example scenario and its rule milk \<rightarrow> bread.\<close>

theorem association_rule_metrics_witness:
  "apriori (basket_sets example_df) (1 / 2) = Inr example_itemsets \<and>
   (\<exists>cands. candidate_rules example_itemsets = Inr cands \<and> milk_bread_rule \<in> set cands) \<and>
   support milk_bread_rule = support_of (basket_sets example_df) ([''milk''] @ [''bread'']) \<and>
   confidence milk_bread_rule =
     support milk_bread_rule / support_of (basket_sets example_df) [''milk''] \<and>
   lift milk_bread_rule =
     confidence milk_bread_rule / support_of (basket_sets example_df) [''bread'']"
proof -
  have e1: "apriori (basket_sets example_df) (1 / 2) = Inr example_itemsets"
    by code_simp
  have e2: "candidate_rules example_itemsets =
      Inr [\<lparr>antecedents = [''bread''], consequents = [''eggs''], support = 1 / 2,
             confidence = 2 / 3, lift = 4 / 3\<rparr>,
           \<lparr>antecedents = [''eggs''], consequents = [''bread''], support = 1 / 2,
             confidence = 1, lift = 4 / 3\<rparr>,
           \<lparr>antecedents = [''bread''], consequents = [''milk''], support = 1 / 2,
             confidence = 2 / 3, lift = 8 / 9\<rparr>,
           \<lparr>antecedents = [''milk''], consequents = [''bread''], support = 1 / 2,
             confidence = 2 / 3, lift = 8 / 9\<rparr>]"
    by code_simp
  from association_rule_metrics [OF e1, of 0] obtain cands
    where c: "candidate_rules example_itemsets = Inr cands"
      and m: "\<forall>r \<in> set cands.
         support r = support_of (basket_sets example_df) (antecedents r @ consequents r) \<and>
         confidence r = support r / support_of (basket_sets example_df) (antecedents r) \<and>
         lift r = confidence r / support_of (basket_sets example_df) (consequents r)"
    by blast
  from c e2 have r: "milk_bread_rule \<in> set cands"
    by (auto simp: milk_bread_rule_def)
  from m r have "support milk_bread_rule =
        support_of (basket_sets example_df) (antecedents milk_bread_rule @ consequents milk_bread_rule) \<and>
      confidence milk_bread_rule =
        support milk_bread_rule / support_of (basket_sets example_df) (antecedents milk_bread_rule) \<and>
      lift milk_bread_rule =
        confidence milk_bread_rule / support_of (basket_sets example_df) (consequents milk_bread_rule)"
    by blast
  moreover have "antecedents milk_bread_rule = [''milk'']" "consequents milk_bread_rule = [''bread'']"
    by (simp_all add: milk_bread_rule_def)
  ultimately show ?thesis
    using e1 c r by auto
qed

subsection \<open>The two thresholds\<close>

text \<open>
  Claim C4. The rules that the generator emits are exactly the candidate rules whose
  confidence is at least \<open>min_confidence\<close>, the candidates not depending on any threshold.
  The rule table of the scripts is the emitted rules filtered by \<open>lift \<ge> min_lift\<close>
  afterwards, so every rule of it has confidence at least \<open>min_confidence\<close> and lift at
  least \<open>min_lift\<close>; with a \<open>min_support\<close> in (0, 1] the pipeline does return such a table.
\<close>

theorem two_stage_thresholds:
  "(association_rules frequent_itemsets min_confidence = Inr rules \<longrightarrow>
      (\<exists>cands. candidate_rules frequent_itemsets = Inr cands \<and>
         rules = filter (\<lambda>r. confidence r \<ge> min_confidence) cands)) \<and>
   (mine_rules df min_support min_confidence min_lift = Inr final \<longrightarrow>
      (\<exists>t emitted. apriori (basket_sets df) min_support = Inr t \<and>
         association_rules t min_confidence = Inr emitted \<and>
         final = filter (\<lambda>r. lift r \<ge> min_lift) emitted) \<and>
      (\<forall>r \<in> set final. confidence r \<ge> min_confidence \<and> lift r \<ge> min_lift)) \<and>
   (0 < min_support \<and> min_support \<le> 1 \<longrightarrow>
      (\<exists>final. mine_rules df min_support min_confidence min_lift = Inr final))"
proof -
  have g: "\<exists>cands. candidate_rules frequent_itemsets = Inr cands \<and>
         rules = filter (\<lambda>r. confidence r \<ge> min_confidence) cands"
    if "association_rules frequent_itemsets min_confidence = Inr rules"
    using that by (auto simp: association_rules_def split: sum.splits)
  have p: "(\<exists>t emitted. apriori (basket_sets df) min_support = Inr t \<and>
         association_rules t min_confidence = Inr emitted \<and>
         final = filter (\<lambda>r. lift r \<ge> min_lift) emitted) \<and>
      (\<forall>r \<in> set final. confidence r \<ge> min_confidence \<and> lift r \<ge> min_lift)"
    if m: "mine_rules df min_support min_confidence min_lift = Inr final"
  proof -
    from m obtain t emitted where t: "apriori (basket_sets df) min_support = Inr t"
      and e: "association_rules t min_confidence = Inr emitted"
      and f: "final = filter (\<lambda>r. lift r \<ge> min_lift) emitted"
      by (auto simp: mine_rules_def split: sum.splits)
    from e have "\<forall>r \<in> set emitted. confidence r \<ge> min_confidence"
      by (auto simp: association_rules_def split: sum.splits)
    with f have "\<forall>r \<in> set final. confidence r \<ge> min_confidence \<and> lift r \<ge> min_lift"
      by simp
    with t e f show ?thesis by blast
  qed
  have v: "\<exists>final. mine_rules df min_support min_confidence min_lift = Inr final"
    if "0 < min_support \<and> min_support \<le> 1"
    using that mine_rules_valid [of min_support df min_confidence min_lift] by blast
  from g p v show ?thesis by blast
qed

text \<open>Claim C4 at the example scenario.\<close>

theorem two_stage_thresholds_witness:
  "association_rules example_itemsets (1 / 2) = Inr (example_rules @ [
       \<lparr>antecedents = [''bread''], consequents = [''milk''], support = 1 / 2,
        confidence = 2 / 3, lift = 8 / 9\<rparr>,
       \<lparr>antecedents = [''milk''], consequents = [''bread''], support = 1 / 2,
        confidence = 2 / 3, lift = 8 / 9\<rparr>]) \<and>
   mine_rules example_df (1 / 2) (1 / 2) 1 = Inr example_rules \<and>
   (1 / 2 :: rat) \<le> confidence (hd example_rules) \<and> 1 \<le> lift (hd example_rules) \<and>
   (0 :: rat) < 1 / 2 \<and> (1 / 2 :: rat) \<le> 1 \<and>
   (\<exists>cands. candidate_rules example_itemsets = Inr cands)"
proof -
  have a: "association_rules example_itemsets (1 / 2) = Inr (example_rules @ [
       \<lparr>antecedents = [''bread''], consequents = [''milk''], support = 1 / 2,
        confidence = 2 / 3, lift = 8 / 9\<rparr>,
       \<lparr>antecedents = [''milk''], consequents = [''bread''], support = 1 / 2,
        confidence = 2 / 3, lift = 8 / 9\<rparr>])"
    by code_simp
  have m: "mine_rules example_df (1 / 2) (1 / 2) 1 = Inr example_rules"
    by code_simp
  have h: "hd example_rules \<in> set example_rules"
    by (simp add: example_rules_def)
  note th = two_stage_thresholds [where frequent_itemsets = example_itemsets
      and min_confidence = "1 / 2" and df = example_df and min_support = "1 / 2"
      and min_lift = 1 and final = example_rules]
  from th [THEN conjunct1, rule_format, OF a]
  have c: "\<exists>cands. candidate_rules example_itemsets = Inr cands" by blast
  from th [THEN conjunct2, THEN conjunct1, rule_format, OF m] h
  have b: "(1 / 2 :: rat) \<le> confidence (hd example_rules) \<and> 1 \<le> lift (hd example_rules)"
    by blast
  show ?thesis
    using a m b c by simp
qed

subsection \<open>Antimonotonicity\<close>

text \<open>
  Claim C5. For itemsets \<open>A \<subseteq> B\<close> the support of \<open>B\<close> is at most the support of \<open>A\<close>; and
  when the support of \<open>A\<close> is below \<open>min_support\<close>, no superset of \<open>A\<close> is an itemset of the
  mined table.
\<close>

theorem support_antimonotone:
  "(set A \<subseteq> set B \<longrightarrow> support_of S B \<le> support_of S A) \<and>
   (apriori S min_support = Inr frequent_itemsets \<and> support_of S A < min_support \<and>
      set A \<subseteq> set B \<longrightarrow> B \<notin> fst ` set frequent_itemsets)"
proof -
  have m: "support_of S B \<le> support_of S A" if "set A \<subseteq> set B"
    using that by (rule support_of_mono)
  have "B \<notin> fst ` set frequent_itemsets"
    if t: "apriori S min_support = Inr frequent_itemsets"
      and a: "support_of S A < min_support" and s: "set A \<subseteq> set B"
  proof
    assume "B \<in> fst ` set frequent_itemsets"
    then obtain s where "(B, s) \<in> set frequent_itemsets" by auto
    with apriori_table(2) [OF t, of B s] have "min_support \<le> support_of S B"
      by (simp add: frequent_itemset_def)
    with m [OF s] a show False by simp
  qed
  with m show ?thesis by blast
qed

text \<open>Claim C5 at the example scenario: eggs and milk occur together in one transaction of four.\<close>

theorem support_antimonotone_witness:
  "set [''eggs'', ''milk''] \<subseteq> set [''bread'', ''eggs'', ''milk''] \<and>
   support_of (basket_sets example_df) [''bread'', ''eggs'', ''milk''] \<le>
     support_of (basket_sets example_df) [''eggs'', ''milk''] \<and>
   apriori (basket_sets example_df) (1 / 2) = Inr example_itemsets \<and>
   support_of (basket_sets example_df) [''eggs'', ''milk''] < 1 / 2 \<and>
   [''bread'', ''eggs'', ''milk''] \<notin> fst ` set example_itemsets"
proof -
  have s: "set [''eggs'', ''milk''] \<subseteq> set [''bread'', ''eggs'', ''milk'']"
    by simp
  have e: "apriori (basket_sets example_df) (1 / 2) = Inr example_itemsets"
    by code_simp
  have l: "support_of (basket_sets example_df) [''eggs'', ''milk''] < 1 / 2"
    by code_simp
  note th = support_antimonotone [where A = "[''eggs'', ''milk'']"
      and B = "[''bread'', ''eggs'', ''milk'']" and S = "basket_sets example_df"
      and min_support = "1 / 2" and frequent_itemsets = example_itemsets]
  from th [THEN conjunct1, rule_format, OF s]
  have a: "support_of (basket_sets example_df) [''bread'', ''eggs'', ''milk''] \<le>
     support_of (basket_sets example_df) [''eggs'', ''milk'']" .
  from th [THEN conjunct2, rule_format, OF conjI [OF e conjI [OF l s]]]
  have b: "[''bread'', ''eggs'', ''milk''] \<notin> fst ` set example_itemsets" .
  show ?thesis
    using s a e l b by (intro conjI)
qed

subsection \<open>Support bounds and the inclusive threshold\<close>

text \<open>
  Claim C6, as stated, fails in its example. With \<open>min_support = 1/2\<close> the inclusive
  threshold keeps eggs, whose support is exactly 1/2, and with it the itemset of bread
  and eggs, also of support 1/2.
\<close>

theorem example_eggs_frequent:
  "apriori (basket_sets example_df) (1 / 2) =
     Inr [([''bread''], 3 / 4), ([''eggs''], 1 / 2), ([''milk''], 3 / 4),
          ([''bread'', ''eggs''], 1 / 2), ([''bread'', ''milk''], 1 / 2)]"
  by code_simp

text \<open>
  Claim C6, amended. Every itemset of the mined table is listed with its support, which
  lies between 0 and 1 and is at least \<open>min_support\<close>; the comparison is inclusive: an
  itemset over the store's items whose support equals \<open>min_support\<close> is in the table. In the
  example scenario with \<open>min_support = 1/2\<close> the frequent 1-itemsets are milk (3/4), bread
  (3/4) and eggs (1/2), the frequent 2-itemsets are milk with bread (1/2) and bread with
  eggs (1/2), and there is no larger one.
\<close>

theorem mined_support_bounds:
  assumes "apriori S min_support = Inr frequent_itemsets"
  shows "(\<forall>Is \<in> set frequent_itemsets.
            snd Is = support_of S (fst Is) \<and> 0 \<le> snd Is \<and> snd Is \<le> 1 \<and> min_support \<le> snd Is) \<and>
         (\<forall>I. I \<noteq> [] \<and> sorted I \<and> distinct I \<and> set I \<subseteq> set (columns S) \<and>
               support_of S I = min_support \<longrightarrow> (I, min_support) \<in> set frequent_itemsets) \<and>
         (\<exists>t. apriori (basket_sets example_df) (1 / 2) = Inr t \<and>
            {Is \<in> set t. length (fst Is) = 1} =
              {([''milk''], 3 / 4), ([''bread''], 3 / 4), ([''eggs''], 1 / 2)} \<and>
            {Is \<in> set t. length (fst Is) = 2} =
              {([''bread'', ''milk''], 1 / 2), ([''bread'', ''eggs''], 1 / 2)} \<and>
            {Is \<in> set t. length (fst Is) > 2} = {})"
proof -
  have b: "snd Is = support_of S (fst Is) \<and> 0 \<le> snd Is \<and> snd Is \<le> 1 \<and> min_support \<le> snd Is"
    if "Is \<in> set frequent_itemsets" for Is
  proof -
    obtain I s where Is: "Is = (I, s)" by (cases Is)
    from that apriori_table(2) [OF assms, of I s]
    have "frequent_itemset S min_support I" "s = support_of S I"
      unfolding Is by simp_all
    with support_of_bounds [of S I] show ?thesis
      unfolding Is by (simp add: frequent_itemset_def)
  qed
  have i: "(I, min_support) \<in> set frequent_itemsets"
    if "I \<noteq> [] \<and> sorted I \<and> distinct I \<and> set I \<subseteq> set (columns S) \<and>
        support_of S I = min_support" for I
    using that apriori_table(2) [OF assms, of I min_support]
    by (simp add: frequent_itemset_def)
  have e: "apriori (basket_sets example_df) (1 / 2) = Inr example_itemsets"
    by code_simp
  have e1: "{Is \<in> set example_itemsets. length (fst Is) = 1} =
      {([''milk''], 3 / 4), ([''bread''], 3 / 4), ([''eggs''], 1 / 2)}"
    by (auto simp: example_itemsets_def)
  have e2: "{Is \<in> set example_itemsets. length (fst Is) = 2} =
      {([''bread'', ''milk''], 1 / 2), ([''bread'', ''eggs''], 1 / 2)}"
    by (auto simp: example_itemsets_def)
  have e3: "{Is \<in> set example_itemsets. length (fst Is) > 2} = {}"
    by (auto simp: example_itemsets_def)
  from e e1 e2 e3 have x: "\<exists>t. apriori (basket_sets example_df) (1 / 2) = Inr t \<and>
            {Is \<in> set t. length (fst Is) = 1} =
              {([''milk''], 3 / 4), ([''bread''], 3 / 4), ([''eggs''], 1 / 2)} \<and>
            {Is \<in> set t. length (fst Is) = 2} =
              {([''bread'', ''milk''], 1 / 2), ([''bread'', ''eggs''], 1 / 2)} \<and>
            {Is \<in> set t. length (fst Is) > 2} = {}"
    by blast
  from b i x show ?thesis by blast
qed

text \<open>The amended claim C6 at the example scenario.\<close>

theorem mined_support_bounds_witness:
  "apriori (basket_sets example_df) (1 / 2) = Inr example_itemsets \<and>
   ([''eggs''], 1 / 2) \<in> set example_itemsets \<and>
   support_of (basket_sets example_df) [''eggs''] = 1 / 2 \<and>
   (0 :: rat) \<le> 1 / 2 \<and> (1 / 2 :: rat) \<le> 1 \<and>
   [''bread'', ''eggs''] \<noteq> [] \<and> sorted [''bread'', ''eggs''] \<and> distinct [''bread'', ''eggs''] \<and>
   set [''bread'', ''eggs''] \<subseteq> set (columns (basket_sets example_df)) \<and>
   support_of (basket_sets example_df) [''bread'', ''eggs''] = 1 / 2 \<and>
   ([''bread'', ''eggs''], 1 / 2) \<in> set example_itemsets"
proof -
  have e: "apriori (basket_sets example_df) (1 / 2) = Inr example_itemsets"
    by code_simp
  have m: "([''eggs''], 1 / 2) \<in> set example_itemsets"
    by (simp add: example_itemsets_def)
  have h: "[''bread'', ''eggs''] \<noteq> [] \<and> sorted [''bread'', ''eggs''] \<and>
      distinct [''bread'', ''eggs''] \<and>
      set [''bread'', ''eggs''] \<subseteq> set (columns (basket_sets example_df)) \<and>
      support_of (basket_sets example_df) [''bread'', ''eggs''] = 1 / 2"
    by code_simp
  note th = mined_support_bounds [OF e]
  from th [THEN conjunct1, rule_format, OF m]
  have a: "support_of (basket_sets example_df) [''eggs''] = 1 / 2"
    by simp
  from th [THEN conjunct2, THEN conjunct1, rule_format, OF h]
  have b: "([''bread'', ''eggs''], 1 / 2) \<in> set example_itemsets" .
  show ?thesis
    using e m a h b by simp
qed

subsection \<open>Presence bits\<close>

text \<open>
  Claim C7. Every cell of \<open>basket_sets\<close> is the presence bit of its product in its order: 1
  if the uploaded table has a row with that order and product, however many, and 0
  otherwise. Two uploaded tables with the same set of rows give the same basket table
  and so the same mining result and the same rules.
\<close>

theorem basket_sets_presence:
  "(\<forall>row \<in> set (rows (basket_sets df)).
      snd row = map (\<lambda>p. if (fst row, p) \<in> set df then 1 else 0) (columns (basket_sets df))) \<and>
   (set df = set df' \<longrightarrow>
      basket_sets df = basket_sets df' \<and>
      apriori (basket_sets df) min_support = apriori (basket_sets df') min_support \<and>
      mine_rules df min_support min_confidence min_lift =
        mine_rules df' min_support min_confidence min_lift)"
proof -
  have a: "\<forall>row \<in> set (rows (basket_sets df)).
      snd row = map (\<lambda>p. if (fst row, p) \<in> set df then 1 else 0) (columns (basket_sets df))"
    by (auto simp: basket_sets_eq)
  have b: "basket_sets df = basket_sets df' \<and>
      apriori (basket_sets df) min_support = apriori (basket_sets df') min_support \<and>
      mine_rules df min_support min_confidence min_lift =
        mine_rules df' min_support min_confidence min_lift"
    if "set df = set df'"
    using basket_sets_cong [OF that] by (simp add: mine_rules_def)
  from a b show ?thesis by blast
qed

text \<open>Claim C7 at a table in which one row occurs three times.\<close>

theorem basket_sets_presence_witness:
  "set [(1 :: nat, ''milk''), (1, ''milk''), (1, ''milk''), (2, ''bread'')] =
     set [(1, ''milk''), (2, ''bread'')] \<and>
   basket [(1 :: nat, ''milk''), (1, ''milk''), (1, ''milk''), (2, ''bread'')] =
     \<lparr>columns = [''bread'', ''milk''], rows = [(1, [0, 3]), (2, [1, 0])]\<rparr> \<and>
   basket_sets [(1 :: nat, ''milk''), (1, ''milk''), (1, ''milk''), (2, ''bread'')] =
     \<lparr>columns = [''bread'', ''milk''], rows = [(1, [0, 1]), (2, [1, 0])]\<rparr> \<and>
   basket_sets [(1 :: nat, ''milk''), (2, ''bread'')] =
     \<lparr>columns = [''bread'', ''milk''], rows = [(1, [0, 1]), (2, [1, 0])]\<rparr> \<and>
   mine_rules [(1 :: nat, ''milk''), (1, ''milk''), (1, ''milk''), (2, ''bread'')] (1 / 2) (1 / 2) 1 =
     mine_rules [(1 :: nat, ''milk''), (2, ''bread'')] (1 / 2) (1 / 2) 1"
proof -
  have s: "set [(1 :: nat, ''milk''), (1, ''milk''), (1, ''milk''), (2, ''bread'')] =
     set [(1, ''milk''), (2, ''bread'')]"
    by auto
  have c: "basket [(1 :: nat, ''milk''), (1, ''milk''), (1, ''milk''), (2, ''bread'')] =
     \<lparr>columns = [''bread'', ''milk''], rows = [(1, [0, 3]), (2, [1, 0])]\<rparr>"
    by code_simp
  have b: "basket_sets [(1 :: nat, ''milk''), (2, ''bread'')] =
     \<lparr>columns = [''bread'', ''milk''], rows = [(1, [0, 1]), (2, [1, 0])]\<rparr>"
    by code_simp
  note th = basket_sets_presence [where df = "[(1 :: nat, ''milk''), (1, ''milk''), (1, ''milk''), (2, ''bread'')]"
      and df' = "[(1, ''milk''), (2, ''bread'')]" and min_support = "1 / 2"
      and min_confidence = "1 / 2" and min_lift = 1, THEN conjunct2, rule_format, OF s]
  have e: "basket_sets [(1 :: nat, ''milk''), (1, ''milk''), (1, ''milk''), (2, ''bread'')] =
     \<lparr>columns = [''bread'', ''milk''], rows = [(1, [0, 1]), (2, [1, 0])]\<rparr>"
    using th [THEN conjunct1] unfolding b .
  have m: "mine_rules [(1 :: nat, ''milk''), (1, ''milk''), (1, ''milk''), (2, ''bread'')] (1 / 2) (1 / 2) 1 =
     mine_rules [(1 :: nat, ''milk''), (2, ''bread'')] (1 / 2) (1 / 2) 1"
    using th [THEN conjunct2, THEN conjunct2] .
  show ?thesis
    using s c e b m by (intro conjI)
qed

subsection \<open>The empty dataset\<close>

text \<open>
  Claim C8, as stated, fails. For an uploaded table without rows the transaction count is
  0 and nothing stops the run before mining: mining is run on the empty basket table and
  returns the empty table of itemsets. The run then ends with the \<^verbatim>\<open>ValueError\<close> with which
  the library refuses an empty table of itemsets, not with an error for the empty dataset.
  The same happens for a table with rows in which no itemset is frequent: its empty
  mining result ends the run with that error.
\<close>

theorem empty_dataset_value_error:
  "transaction_count (basket_sets ([] :: (nat \<times> string) list)) = 0 \<and>
   apriori (basket_sets ([] :: (nat \<times> string) list)) (1 / 2) = Inr [] \<and>
   dashboard ([] :: (nat \<times> string) list) (1 / 2) (1 / 2) 1 Confidence None = Inl ValueError \<and>
   apriori (basket_sets [(1 :: nat, ''milk''), (2, ''bread'')]) (3 / 4) = Inr [] \<and>
   dashboard [(1 :: nat, ''milk''), (2, ''bread'')] (3 / 4) (1 / 2) 1 Confidence None =
     Inl ValueError"
  by code_simp

text \<open>
  Claim C8, amended. With a \<open>min_support\<close> in (0, 1]: for an uploaded table without rows
  the transaction count is 0 and the scripts still run mining, which returns the empty
  table of itemsets as its result; mining returns a table for every uploaded table; no
  run ends with \<open>EmptyDatasetError\<close>; and when mining finds itemsets, rule generation
  returns a rule table, and a run in which no rule passes the thresholds shows the
  warning that no rules were found. What the run does after an empty mining result is
  left open here.
\<close>

theorem empty_dataset_not_checked:
  fixes df :: "('o::linorder \<times> string) list"
  assumes "0 < min_support" "min_support \<le> 1"
  shows "transaction_count (basket_sets ([] :: ('o \<times> string) list)) = 0 \<and>
     apriori (basket_sets ([] :: ('o \<times> string) list)) min_support = Inr [] \<and>
     (\<exists>t. apriori (basket_sets df) min_support = Inr t) \<and>
     dashboard df min_support min_confidence min_lift metric_choice position \<noteq>
       Inl (Core EmptyDatasetError) \<and>
     (apriori (basket_sets df) min_support = Inr frequent_itemsets \<and> frequent_itemsets \<noteq> [] \<longrightarrow>
        (\<exists>generated. association_rules_call frequent_itemsets min_confidence = Inr generated \<and>
           mine_rules df min_support min_confidence min_lift =
             Inr (filter (\<lambda>r. lift r \<ge> min_lift) generated)) \<and>
        (mine_rules df min_support min_confidence min_lift = Inr [] \<longrightarrow>
           dashboard df min_support min_confidence min_lift metric_choice position =
             Inr NoRulesWarning))"
proof -
  have n: "transaction_count (basket_sets ([] :: ('o \<times> string) list)) = 0"
    by (simp add: basket_sets_empty transaction_count_def)
  have a: "apriori (basket_sets ([] :: ('o \<times> string) list)) min_support = Inr []"
    using assms by (simp add: basket_sets_empty apriori_empty_store)
  from assms obtain t where t: "apriori (basket_sets df) min_support = Inr t"
    by (auto simp: apriori_def)
  have d: "dashboard df min_support min_confidence min_lift metric_choice position \<noteq>
      Inl (Core EmptyDatasetError)"
    unfolding dashboard_valid [OF t]
    by (auto simp: Let_def split: sum.splits dest: st_slider_error)
  have g: "(\<exists>generated. association_rules_call frequent_itemsets min_confidence = Inr generated \<and>
           mine_rules df min_support min_confidence min_lift =
             Inr (filter (\<lambda>r. lift r \<ge> min_lift) generated)) \<and>
        (mine_rules df min_support min_confidence min_lift = Inr [] \<longrightarrow>
           dashboard df min_support min_confidence min_lift metric_choice position =
             Inr NoRulesWarning)"
    if f: "apriori (basket_sets df) min_support = Inr frequent_itemsets"
      and ne: "frequent_itemsets \<noteq> []"
  proof -
    let ?gen = "filter (\<lambda>r. confidence r \<ge> min_confidence)
        (store_candidates (basket_sets df) frequent_itemsets)"
    have c: "association_rules_call frequent_itemsets min_confidence = Inr ?gen"
      using candidate_rules_frequent [OF f] ne
      by (simp add: association_rules_call_def association_rules_def)
    have m: "mine_rules df min_support min_confidence min_lift =
        Inr (filter (\<lambda>r. lift r \<ge> min_lift) ?gen)"
      using candidate_rules_frequent [OF f]
      by (simp add: mine_rules_def f association_rules_def)
    have w: "dashboard df min_support min_confidence min_lift metric_choice position =
        Inr NoRulesWarning"
      if "mine_rules df min_support min_confidence min_lift = Inr []"
      using that ne unfolding m dashboard_valid [OF f] by (simp add: Let_def)
    from c m w show ?thesis by blast
  qed
  show ?thesis
    using n a t d g by (intro conjI impI exI [of _ t]) blast+
qed

text \<open>
  The amended claim C8 at the empty table and at the example scenario with a lift
  threshold that no rule passes.
\<close>

theorem empty_dataset_not_checked_witness:
  "(0 :: rat) < 1 / 2 \<and> (1 / 2 :: rat) \<le> 1 \<and>
   apriori (basket_sets ([] :: (nat \<times> string) list)) (1 / 2) = Inr [] \<and>
   dashboard ([] :: (nat \<times> string) list) (1 / 2) (1 / 2) 1 Lift None \<noteq>
     Inl (Core EmptyDatasetError) \<and>
   apriori (basket_sets example_df) (1 / 2) = Inr example_itemsets \<and>
   example_itemsets \<noteq> [] \<and>
   mine_rules example_df (1 / 2) (1 / 2) 2 = Inr [] \<and>
   dashboard example_df (1 / 2) (1 / 2) 2 Lift None = Inr NoRulesWarning"
proof -
  have h: "(0 :: rat) < 1 / 2" "(1 / 2 :: rat) \<le> 1"
    by simp_all
  have e: "apriori (basket_sets example_df) (1 / 2) = Inr example_itemsets"
    by code_simp
  have ne: "example_itemsets \<noteq> []"
    by (simp add: example_itemsets_def)
  have m: "mine_rules example_df (1 / 2) (1 / 2) 2 = Inr []"
    by code_simp
  have t1: "apriori (basket_sets ([] :: (nat \<times> string) list)) (1 / 2) = Inr []"
    by (rule empty_dataset_not_checked [OF h, THEN conjunct2, THEN conjunct1])
  have t2: "dashboard ([] :: (nat \<times> string) list) (1 / 2) (1 / 2) 1 Lift None \<noteq>
      Inl (Core EmptyDatasetError)"
    by (rule empty_dataset_not_checked [OF h, THEN conjunct2, THEN conjunct2, THEN conjunct2,
          THEN conjunct1])
  have t3: "dashboard example_df (1 / 2) (1 / 2) 2 Lift None = Inr NoRulesWarning"
    by (rule empty_dataset_not_checked [OF h, THEN conjunct2, THEN conjunct2, THEN conjunct2,
          THEN conjunct2, rule_format, OF conjI [OF e ne], THEN conjunct2, rule_format, OF m])
  show ?thesis
    using h t1 t2 e ne m t3 by (intro conjI)
qed

section \<open>Properties of the export\<close>

subsection \<open>Joining and splitting item names\<close>

lemma find_sep_Some: "find_sep x = Some (a, b) \<Longrightarrow> x = a @ '', '' @ b"
  by (induction x arbitrary: a rule: find_sep.induct) (auto split: if_splits)

lemma find_sep_append:
  "find_sep x = None \<Longrightarrow> find_sep (x @ '', '' @ r) = Some (x, r)"
  by (induction x rule: find_sep.induct) (auto split: if_splits)

lemma find_sep_found: "\<exists>p. find_sep (u @ '', '' @ v) = Some p"
  by (induction u rule: find_sep.induct) auto

lemma no_sep_iff: "no_sep x \<longleftrightarrow> (\<forall>u v. x \<noteq> u @ '', '' @ v)"
proof
  assume n: "no_sep x"
  show "\<forall>u v. x \<noteq> u @ '', '' @ v"
  proof (intro allI notI)
    fix u v assume x: "x = u @ '', '' @ v"
    have "\<exists>p. find_sep (u @ '', '' @ v) = Some p"
      by (rule find_sep_found)
    with n x show False by (simp add: no_sep_def)
  qed
next
  assume a: "\<forall>u v. x \<noteq> u @ '', '' @ v"
  show "no_sep x"
  proof (cases "find_sep x")
    case None
    then show ?thesis by (simp add: no_sep_def)
  next
    case (Some p)
    then have "x = fst p @ '', '' @ snd p"
      using find_sep_Some [of x "fst p" "snd p"] by simp
    with a show ?thesis by blast
  qed
qed








end
